theory Spec2Isabelle
  imports Complex_Main
begin

section \<open>PLSA by expectation-maximisation: the model of plsa.py\<close>

text \<open>
  The program keeps its tables in numpy arrays of floats. A two-dimensional array is
  modelled as a list of rows and the posterior \<open>topic_prob\<close> as a list (documents) of
  lists (topics) of lists (terms). Floats are idealised as the reals, so rounding,
  NaN and infinities are outside the model. Printing is left out. Every \<open>for\<close> loop
  over a \<open>range\<close> is a fold over the index list, and a loop whose body can raise is
  a fold in the error sum. The program names its element type \<open>np.float\<close>, the alias
  of Python's float in the numpy releases it was written for; the model is of the
  program run on such a release.
\<close>

type_synonym matrix = "real list list"
type_synonym tensor = "real list list list"

text \<open>
  The ways the program stops abnormally: the exception raised by \<open>normalize\<close>
  (message "Error while normalizing. Row(s) sum to zero"), Python's \<open>exit(code)\<close>,
  which raises SystemExit and ends the interpreter, and the ValueError of
  \<open>math.log\<close> (math domain error) and of a numpy shape with a negative dimension.
\<close>

datatype error = RowSumZero | SystemExit int | ValueError

record corpus =
  documents :: "string list list"
  vocabulary :: "string list"
  likelihoods :: "real list"
  term_doc_matrix :: matrix
  document_topic_prob :: matrix
  topic_word_prob :: matrix
  topic_prob :: tensor
  number_of_documents :: nat
  vocabulary_size :: nat

subsection \<open>Loops and array primitives\<close>

text \<open>A \<open>for\<close> loop whose body may raise: the first error ends the loop.\<close>

fun forM :: "'a list \<Rightarrow> ('a \<Rightarrow> 's \<Rightarrow> error + 's) \<Rightarrow> 's \<Rightarrow> error + 's" where
  "forM [] body s = Inr s"
| "forM (x # xs) body s =
     (case body x s of Inl e \<Rightarrow> Inl e | Inr s' \<Rightarrow> forM xs body s')"

text \<open>Python's \<open>sum(xs)\<close> and the loop \<open>acc = 0; for p in xs: acc += p\<close>.\<close>

definition py_sum :: "real list \<Rightarrow> real" where
  "py_sum xs = fold (\<lambda>p acc. acc + p) xs 0"

definition np_ones2 :: "nat \<Rightarrow> nat \<Rightarrow> matrix" where
  "np_ones2 r c = replicate r (replicate c 1)"

definition np_ones3 :: "nat \<Rightarrow> nat \<Rightarrow> nat \<Rightarrow> tensor" where
  "np_ones3 a b c = replicate a (replicate b (replicate c 1))"

definition np_zeros3 :: "nat \<Rightarrow> nat \<Rightarrow> nat \<Rightarrow> tensor" where
  "np_zeros3 a b c = replicate a (replicate b (replicate c 0))"

text \<open>\<open>m[r][c] = v\<close> on a two-dimensional array.\<close>

definition set_cell :: "matrix \<Rightarrow> nat \<Rightarrow> nat \<Rightarrow> real \<Rightarrow> matrix" where
  "set_cell m r c v = m[r := (m ! r)[c := v]]"

text \<open>\<open>m[:, j]\<close> and \<open>m[:, j] = v\<close>.\<close>

definition column :: "matrix \<Rightarrow> nat \<Rightarrow> real list" where
  "column m j = map (\<lambda>row. row ! j) m"

definition set_column :: "matrix \<Rightarrow> nat \<Rightarrow> real list \<Rightarrow> matrix" where
  "set_column m j v = map2 (\<lambda>row x. row[j := x]) m v"

definition count_nonzero :: "real list \<Rightarrow> nat" where
  "count_nonzero xs = length (filter (\<lambda>x. x \<noteq> 0) xs)"

subsection \<open>normalize\<close>

definition normalize :: "matrix \<Rightarrow> error + matrix" where
  "normalize input_matrix =
     (let row_sums = map sum_list input_matrix
      in if count_nonzero row_sums = length row_sums
         then Inr (map2 (\<lambda>row s. map (\<lambda>x. x / s) row) input_matrix row_sums)
         else Inl RowSumZero)"

subsection \<open>Corpus construction\<close>

definition init_corpus :: corpus where
  "init_corpus = \<lparr>documents = [], vocabulary = [], likelihoods = [],
     term_doc_matrix = [], document_topic_prob = [], topic_word_prob = [],
     topic_prob = [], number_of_documents = 0, vocabulary_size = 0\<rparr>"

text \<open>
  \<open>str.split()\<close> without arguments: the maximal runs of non-whitespace characters.
  A character stands for a code point below 256. The whitespace among these is the
  blank, the controls 9 to 13 and 28 to 31, the next-line control 133 and the
  no-break space 160; the whitespace code points above 255 are not represented.
\<close>

definition is_space :: "char \<Rightarrow> bool" where
  "is_space c =
     (let n = of_char c :: nat
      in n = 32 \<or> (9 \<le> n \<and> n \<le> 13) \<or> (28 \<le> n \<and> n \<le> 31) \<or> n = 133 \<or> n = 160)"

fun split_acc :: "string \<Rightarrow> string \<Rightarrow> string list" where
  "split_acc cur [] = (if cur = [] then [] else [rev cur])"
| "split_acc cur (c # cs) =
     (if is_space c then (if cur = [] then split_acc [] cs else rev cur # split_acc [] cs)
      else split_acc (c # cur) cs)"

definition py_split :: "string \<Rightarrow> string list" where
  "py_split s = split_acc [] s"

text \<open>\<open>build_corpus\<close>, given the lines that \<open>readlines\<close> returned.\<close>

definition build_corpus :: "string list \<Rightarrow> corpus \<Rightarrow> corpus" where
  "build_corpus lines st =
     (let docs = map py_split lines
      in st\<lparr>documents := docs, number_of_documents := length docs\<rparr>)"

definition build_term_doc_matrix :: "corpus \<Rightarrow> corpus" where
  "build_term_doc_matrix st =
     (let num = number_of_documents st;
          size = vocabulary_size st;
          matrix = np_ones2 num size;
          matrix' = fold (\<lambda>i. fold (\<lambda>j m.
                       set_cell m i j (real (count_list (documents st ! i) (vocabulary st ! j))))
                     [0..<size]) [0..<num] matrix
      in st\<lparr>term_doc_matrix := matrix'\<rparr>)"

subsection \<open>Initialisation\<close>

text \<open>
  \<open>np.random.random_sample((r, c))\<close>: the values drawn are an input of the model,
  a function from cell to value.
\<close>

definition random_sample :: "(nat \<Rightarrow> nat \<Rightarrow> real) \<Rightarrow> nat \<Rightarrow> nat \<Rightarrow> matrix" where
  "random_sample draw r c = map (\<lambda>i. map (\<lambda>j. draw i j) [0..<c]) [0..<r]"

definition initialize_randomly ::
  "(nat \<Rightarrow> nat \<Rightarrow> real) \<Rightarrow> (nat \<Rightarrow> nat \<Rightarrow> real) \<Rightarrow> nat \<Rightarrow> corpus \<Rightarrow> error + corpus" where
  "initialize_randomly draw1 draw2 number_of_topics st =
     (case normalize (random_sample draw1 (number_of_documents st) number_of_topics) of
        Inl e \<Rightarrow> Inl e
      | Inr dtp \<Rightarrow>
        (case normalize (random_sample draw2 number_of_topics (length (vocabulary st))) of
           Inl e \<Rightarrow> Inl e
         | Inr twp \<Rightarrow> Inr (st\<lparr>document_topic_prob := dtp, topic_word_prob := twp\<rparr>)))"

definition initialize_uniformly :: "nat \<Rightarrow> corpus \<Rightarrow> error + corpus" where
  "initialize_uniformly number_of_topics st =
     (case normalize (np_ones2 (number_of_documents st) number_of_topics) of
        Inl e \<Rightarrow> Inl e
      | Inr dtp \<Rightarrow>
        (case normalize (np_ones2 number_of_topics (length (vocabulary st))) of
           Inl e \<Rightarrow> Inl e
         | Inr twp \<Rightarrow> Inr (st\<lparr>document_topic_prob := dtp, topic_word_prob := twp\<rparr>)))"

definition initialize ::
  "(nat \<Rightarrow> nat \<Rightarrow> real) \<Rightarrow> (nat \<Rightarrow> nat \<Rightarrow> real) \<Rightarrow> nat \<Rightarrow> bool \<Rightarrow> corpus \<Rightarrow> error + corpus" where
  "initialize draw1 draw2 number_of_topics random st =
     (if random then initialize_randomly draw1 draw2 number_of_topics st
      else initialize_uniformly number_of_topics st)"

subsection \<open>E-step\<close>

text \<open>
  The body of the two nested loops: one document \<open>i\<close> and one term \<open>j\<close>. The row of
  \<open>document_topic_prob\<close> and the column of \<open>topic_word_prob\<close> that are multiplied
  have the same length, the number of topics, in every state \<open>plsa\<close> reaches.
\<close>

definition estep_cell :: "matrix \<Rightarrow> matrix \<Rightarrow> nat \<Rightarrow> nat \<Rightarrow> tensor \<Rightarrow> error + tensor" where
  "estep_cell dtp twp i j tp =
     (let prob = map2 (*) (dtp ! i) (column twp j)
      in if py_sum prob = 0 then Inl (SystemExit 0)
         else let probSum = py_sum prob;
                  prob' = map (\<lambda>p. p / probSum) prob
              in Inr (tp[i := set_column (tp ! i) j prob']))"

definition expectation_step :: "corpus \<Rightarrow> error + corpus" where
  "expectation_step st =
     (let number = number_of_documents st;
          size = vocabulary_size st;
          tp0 = np_ones3 number (length (topic_word_prob st)) size
      in case forM [0..<number] (\<lambda>i. forM [0..<size]
                (\<lambda>j. estep_cell (document_topic_prob st) (topic_word_prob st) i j)) tp0 of
           Inl e \<Rightarrow> Inl e
         | Inr tp \<Rightarrow> Inr (st\<lparr>topic_prob := tp\<rparr>))"

subsection \<open>M-step\<close>

definition update_topic_word :: "corpus \<Rightarrow> nat \<Rightarrow> matrix" where
  "update_topic_word st number_of_topics =
     fold (\<lambda>w. fold (\<lambda>t twp.
         let counter = fold (\<lambda>d counter.
               counter + term_doc_matrix st ! d ! w * (topic_prob st ! d ! t ! w))
               [0..<number_of_documents st] 0
         in set_cell twp t w counter)
       [0..<number_of_topics]) [0..<vocabulary_size st] (topic_word_prob st)"

definition update_document_topic :: "corpus \<Rightarrow> nat \<Rightarrow> matrix" where
  "update_document_topic st number_of_topics =
     fold (\<lambda>t. fold (\<lambda>d dtp.
         let counter = fold (\<lambda>w counter.
               counter + term_doc_matrix st ! d ! w * (topic_prob st ! d ! t ! w))
               [0..<vocabulary_size st] 0
         in set_cell dtp d t counter)
       [0..<number_of_documents st]) [0..<number_of_topics] (document_topic_prob st)"

definition maximization_step :: "nat \<Rightarrow> corpus \<Rightarrow> error + corpus" where
  "maximization_step number_of_topics st =
     (case normalize (update_topic_word st number_of_topics) of
        Inl e \<Rightarrow> Inl e
      | Inr twp \<Rightarrow>
        (let st1 = st\<lparr>topic_word_prob := twp\<rparr>
         in case normalize (update_document_topic st1 number_of_topics) of
              Inl e \<Rightarrow> Inl e
            | Inr dtp \<Rightarrow> Inr (st1\<lparr>document_topic_prob := dtp\<rparr>)))"

subsection \<open>Likelihood\<close>

text \<open>\<open>math.log(x, b)\<close> is \<open>log(x) / log(b)\<close> and raises ValueError unless \<open>x\<close> is positive.\<close>

definition math_log :: "real \<Rightarrow> real \<Rightarrow> error + real" where
  "math_log x b = (if x \<le> 0 then Inl ValueError else Inr (ln x / ln b))"

definition calculate_likelihood :: "nat \<Rightarrow> corpus \<Rightarrow> error + corpus" where
  "calculate_likelihood number_of_topics st =
     (case forM [0..<number_of_documents st] (\<lambda>i. forM [0..<vocabulary_size st]
             (\<lambda>j currLog.
                let counter = fold (\<lambda>k counter.
                      counter + document_topic_prob st ! i ! k * (topic_word_prob st ! k ! j))
                      [0..<number_of_topics] 0
                in case math_log counter 2 of
                     Inl e \<Rightarrow> Inl e
                   | Inr l \<Rightarrow> Inr (currLog + term_doc_matrix st ! i ! j * l))) 0 of
        Inl e \<Rightarrow> Inl e
      | Inr currLog \<Rightarrow> Inr (st\<lparr>likelihoods := likelihoods st @ [currLog]\<rparr>))"

subsection \<open>The fitting loop\<close>

definition em_iteration :: "nat \<Rightarrow> corpus \<Rightarrow> error + corpus" where
  "em_iteration number_of_topics st =
     (case expectation_step st of
        Inl e \<Rightarrow> Inl e
      | Inr st1 \<Rightarrow>
        (case maximization_step number_of_topics st1 of
           Inl e \<Rightarrow> Inl e
         | Inr st2 \<Rightarrow> calculate_likelihood number_of_topics st2))"

text \<open>
  The loop over \<open>range(max_iter)\<close> with its \<open>break\<close>. Each completed iteration has
  appended one likelihood, so the trace has more than \<open>iteration\<close> elements when the
  test reads it.
\<close>

fun em_loop :: "nat \<Rightarrow> real \<Rightarrow> nat list \<Rightarrow> corpus \<Rightarrow> error + corpus" where
  "em_loop number_of_topics epsilon [] st = Inr st"
| "em_loop number_of_topics epsilon (iteration # rest) st =
     (case em_iteration number_of_topics st of
        Inl e \<Rightarrow> Inl e
      | Inr st' \<Rightarrow>
          if iteration \<ge> 1 \<and>
             \<bar>likelihoods st' ! iteration - likelihoods st' ! (iteration - 1)\<bar> < epsilon
          then Inr st'
          else em_loop number_of_topics epsilon rest st')"

text \<open>
  \<open>plsa\<close>. The topic count and the iteration budget are Python integers;
  \<open>np.zeros\<close> raises ValueError on a negative dimension and \<open>range\<close> of a
  non-positive number is empty.
\<close>

definition plsa ::
  "(nat \<Rightarrow> nat \<Rightarrow> real) \<Rightarrow> (nat \<Rightarrow> nat \<Rightarrow> real) \<Rightarrow> int \<Rightarrow> int \<Rightarrow> real \<Rightarrow> corpus \<Rightarrow> error + corpus" where
  "plsa draw1 draw2 number_of_topics max_iter epsilon st =
     (let st1 = build_term_doc_matrix st
      in if number_of_topics < 0 then Inl ValueError
         else
           let K = nat number_of_topics;
               st2 = st1\<lparr>topic_prob :=
                       np_zeros3 (number_of_documents st1) K (vocabulary_size st1)\<rparr>
           in case initialize draw1 draw2 K True st2 of
                Inl e \<Rightarrow> Inl e
              | Inr st3 \<Rightarrow> em_loop K epsilon [0..<nat max_iter] st3)"

subsection \<open>A small corpus\<close>

text \<open>
  Two one-line documents, "the cat sat" and "the dog sat", with the vocabulary in the
  order the, cat, sat, dog.
\<close>

definition example_corpus :: corpus where
  "example_corpus =
     (build_corpus [''the cat sat'', ''the dog sat''] init_corpus)
       \<lparr>vocabulary := [''the'', ''cat'', ''sat'', ''dog''], vocabulary_size := 4\<rparr>"

text \<open>The same corpus with its matrix built, two topics, and the uniform tables.\<close>

definition example_uniform :: corpus where
  "example_uniform =
     (build_term_doc_matrix example_corpus)
       \<lparr>document_topic_prob := [[1 / 2, 1 / 2], [1 / 2, 1 / 2]],
        topic_word_prob := [[1 / 4, 1 / 4, 1 / 4, 1 / 4], [1 / 4, 1 / 4, 1 / 4, 1 / 4]],
        topic_prob := np_zeros3 2 2 4\<rparr>"

text \<open>And after the E-step on the uniform tables: every posterior is one half.\<close>

definition example_posterior :: corpus where
  "example_posterior =
     example_uniform\<lparr>topic_prob :=
        [[[1 / 2, 1 / 2, 1 / 2, 1 / 2], [1 / 2, 1 / 2, 1 / 2, 1 / 2]],
         [[1 / 2, 1 / 2, 1 / 2, 1 / 2], [1 / 2, 1 / 2, 1 / 2, 1 / 2]]]\<rparr>"

text \<open>
  One document "a b" and two topics, where the document has only the first topic, the
  first topic only the term a and the second topic only the term b: no topic gives
  the term b any mass in the document.
\<close>

definition degenerate_corpus :: corpus where
  "degenerate_corpus =
     (build_corpus [''a b''] init_corpus)\<lparr>vocabulary := [''a'', ''b''], vocabulary_size := 2\<rparr>"

definition degenerate_example :: corpus where
  "degenerate_example =
     (build_term_doc_matrix degenerate_corpus)
       \<lparr>document_topic_prob := [[1, 0]],
        topic_word_prob := [[1, 0], [0, 1]],
        topic_prob := np_zeros3 1 2 2\<rparr>"

text \<open>The smallest corpus: one document "a", one topic, the only possible tables.\<close>

definition single_corpus :: corpus where
  "single_corpus =
     (build_corpus [''a''] init_corpus)\<lparr>vocabulary := [''a''], vocabulary_size := 1\<rparr>"

definition single_example :: corpus where
  "single_example =
     (build_term_doc_matrix single_corpus)
       \<lparr>document_topic_prob := [[1]], topic_word_prob := [[1]],
        topic_prob := np_zeros3 1 1 1\<rparr>"

text \<open>Its state after an iteration, with a given likelihood trace.\<close>

definition single_fitted :: "real list \<Rightarrow> corpus" where
  "single_fitted L = single_example\<lparr>topic_prob := [[[1]]], likelihoods := L\<rparr>"

text \<open>A corpus of two lines, "a" and an empty line, with one topic.\<close>

definition gap_corpus :: corpus where
  "gap_corpus =
     (build_corpus [''a\<newline>'', ''\<newline>''] init_corpus)\<lparr>vocabulary := [''a''], vocabulary_size := 1\<rparr>"

text \<open>The same corpus with its matrix built and the only possible tables.\<close>

definition gap_example :: corpus where
  "gap_example =
     (build_term_doc_matrix gap_corpus)
       \<lparr>document_topic_prob := [[1], [1]], topic_word_prob := [[1]],
        topic_prob := np_zeros3 2 1 1\<rparr>"

text \<open>
  A corpus of two lines, "a b" and an empty line, with two topics and the tables that
  come from random draws with zeros in them: both documents have only the first
  topic, the first topic only the term a and the second only the term b.
\<close>

definition split_corpus :: corpus where
  "split_corpus =
     (build_corpus [''a b\<newline>'', ''\<newline>''] init_corpus)
       \<lparr>vocabulary := [''a'', ''b''], vocabulary_size := 2\<rparr>"

definition split_example :: corpus where
  "split_example =
     (build_term_doc_matrix split_corpus)
       \<lparr>document_topic_prob := [[1, 0], [1, 0]],
        topic_word_prob := [[1, 0], [0, 1]],
        topic_prob := np_zeros3 2 2 2\<rparr>"

text \<open>
  Two documents, "a a a b" and "b b", two topics, tables with topic masses one half,
  one half, three quarters and one quarter, and a trace that already holds a value.
\<close>

definition weighted_corpus :: corpus where
  "weighted_corpus =
     (build_corpus [''a a a b\<newline>'', ''b b\<newline>''] init_corpus)
       \<lparr>vocabulary := [''a'', ''b''], vocabulary_size := 2\<rparr>"

definition weighted_example :: corpus where
  "weighted_example =
     (build_term_doc_matrix weighted_corpus)
       \<lparr>likelihoods := [7],
        document_topic_prob := [[1 / 2, 1 / 2], [3 / 4, 1 / 4]],
        topic_word_prob := [[1, 0], [0, 1]],
        topic_prob := np_zeros3 2 2 2\<rparr>"

subsection \<open>Shapes\<close>

text \<open>
  The arrays of a run have fixed shapes: with \<open>D\<close> documents, \<open>V\<close> terms and \<open>K\<close>
  topics, the count matrix is \<open>D \<times> V\<close>, \<open>document_topic_prob\<close> is \<open>D \<times> K\<close>,
  \<open>topic_word_prob\<close> is \<open>K \<times> V\<close> and \<open>topic_prob\<close> is \<open>D \<times> K \<times> V\<close>. \<open>plsa\<close>
  establishes these shapes before the loop; the index expressions of the steps are
  in range under them.
\<close>

definition has_shape :: "nat \<Rightarrow> nat \<Rightarrow> 'a list list \<Rightarrow> bool" where
  "has_shape r c m = (length m = r \<and> list_all (\<lambda>row. length row = c) m)"

definition has_shape3 :: "nat \<Rightarrow> nat \<Rightarrow> nat \<Rightarrow> 'a list list list \<Rightarrow> bool" where
  "has_shape3 a b c t = (length t = a \<and> list_all (has_shape b c) t)"

definition tables_ok :: "nat \<Rightarrow> corpus \<Rightarrow> bool" where
  "tables_ok K st =
     (has_shape (number_of_documents st) (vocabulary_size st) (term_doc_matrix st) \<and>
      has_shape (number_of_documents st) K (document_topic_prob st) \<and>
      has_shape K (vocabulary_size st) (topic_word_prob st))"

definition posterior_ok :: "nat \<Rightarrow> corpus \<Rightarrow> bool" where
  "posterior_ok K st =
     has_shape3 (number_of_documents st) K (vocabulary_size st) (topic_prob st)"

subsection \<open>The quantities the steps are described with\<close>

text \<open>
  The unnormalized topic mass of document \<open>d\<close> and term \<open>w\<close>: the sum over the topics
  of \<open>P(z | d) * P(w | z)\<close>. It is the quantity the E-step divides by and the
  likelihood takes the logarithm of.
\<close>

definition topic_mass :: "nat \<Rightarrow> corpus \<Rightarrow> nat \<Rightarrow> nat \<Rightarrow> real" where
  "topic_mass K st d w =
     (\<Sum>k<K. document_topic_prob st ! d ! k * (topic_word_prob st ! k ! w))"

text \<open>
  The convergence test of the loop at iteration \<open>i\<close> (counted from 0) on a likelihood
  trace \<open>L\<close>.
\<close>

definition converged_at :: "real \<Rightarrow> real list \<Rightarrow> nat \<Rightarrow> bool" where
  "converged_at epsilon L i = (i \<ge> 1 \<and> \<bar>L ! i - L ! (i - 1)\<bar> < epsilon)"

text \<open>
  The relative frequency of term \<open>w\<close> in the corpus, read off the count matrix: the
  occurrences of \<open>w\<close> over the occurrences of all terms.
\<close>

definition term_frequency :: "corpus \<Rightarrow> nat \<Rightarrow> real" where
  "term_frequency st w =
     (\<Sum>d<number_of_documents st. term_doc_matrix st ! d ! w) /
     (\<Sum>w'<vocabulary_size st. \<Sum>d<number_of_documents st. term_doc_matrix st ! d ! w')"

text \<open>The uniform tables for \<open>K\<close> topics, as \<open>initialize_uniformly\<close> produces them.\<close>

definition uniform_tables :: "nat \<Rightarrow> corpus \<Rightarrow> bool" where
  "uniform_tables K st =
     (document_topic_prob st = replicate (number_of_documents st) (replicate K (1 / real K)) \<and>
      topic_word_prob st =
        replicate K (replicate (vocabulary_size st) (1 / real (vocabulary_size st))))"

text \<open>
  The state in which every document has the uniform distribution over the topics,
  every topic the term frequencies of the corpus and every posterior is \<open>1 / K\<close>, with
  a given likelihood trace; and the likelihood of these tables.
\<close>

definition unigram_state :: "nat \<Rightarrow> corpus \<Rightarrow> real list \<Rightarrow> corpus" where
  "unigram_state K st L =
     st\<lparr>likelihoods := L,
        document_topic_prob := replicate (number_of_documents st) (replicate K (1 / real K)),
        topic_word_prob := replicate K (map (term_frequency st) [0..<vocabulary_size st]),
        topic_prob := replicate (number_of_documents st)
                        (replicate K (replicate (vocabulary_size st) (1 / real K)))\<rparr>"

definition unigram_likelihood :: "corpus \<Rightarrow> real" where
  "unigram_likelihood st =
     (\<Sum>d<number_of_documents st. \<Sum>w<vocabulary_size st.
        term_doc_matrix st ! d ! w * log 2 (term_frequency st w))"

text \<open>
  A count matrix of a corpus in which no document is empty and every vocabulary
  term occurs.
\<close>

definition counts_ok :: "corpus \<Rightarrow> bool" where
  "counts_ok st =
     (has_shape (number_of_documents st) (vocabulary_size st) (term_doc_matrix st) \<and>
      0 < vocabulary_size st \<and>
      (\<forall>d\<in>set [0..<number_of_documents st]. \<forall>w\<in>set [0..<vocabulary_size st].
          0 \<le> term_doc_matrix st ! d ! w) \<and>
      (\<forall>d\<in>set [0..<number_of_documents st].
          0 < (\<Sum>w<vocabulary_size st. term_doc_matrix st ! d ! w)) \<and>
      (\<forall>w\<in>set [0..<vocabulary_size st].
          0 < (\<Sum>d<number_of_documents st. term_doc_matrix st ! d ! w)))"

section \<open>Auxiliary facts about loops\<close>

lemma forM_pure:
  "(\<And>x s. x \<in> set xs \<Longrightarrow> body x s = Inr (g x s)) \<Longrightarrow> forM xs body s = Inr (fold g xs s)"
  by (induction xs arbitrary: s) simp_all

lemma forM_raises:
  assumes "x \<in> set xs" and "\<And>s. body x s = Inl e"
    and "\<And>y s. y \<in> set xs \<Longrightarrow> body y s = Inl e \<or> (\<exists>s'. body y s = Inr s')"
  shows "forM xs body s = Inl e"
  using assms
proof (induction xs arbitrary: s)
  case Nil
  then show ?case by simp
next
  case (Cons y ys)
  show ?case
  proof (cases "body y s")
    case (Inl e')
    with Cons.prems(3)[of y s] show ?thesis by simp
  next
    case (Inr s')
    with Cons.prems(1,2) have "x \<in> set ys" by auto
    with Cons.IH[of s'] Cons.prems(2,3) Inr show ?thesis by simp
  qed
qed

lemma fold_nested_product:
  "fold (\<lambda>i. fold (g i) js) is s = fold (\<lambda>(i, j). g i j) (List.product is js) s"
proof (induction "is" arbitrary: s)
  case Nil
  then show ?case by simp
next
  case (Cons i "is")
  have "fold (\<lambda>(i, j). g i j) (map (Pair i) js) s = fold (g i) js s"
    by (simp add: fold_map comp_def)
  with Cons show ?case by simp
qed

lemma fold_inv:
  "\<forall>x\<in>set xs. \<forall>t. I t \<longrightarrow> I (upd x t) \<Longrightarrow> I s \<Longrightarrow> I (fold upd xs s)"
  by (induction xs arbitrary: s) simp_all

lemma fold_untouched:
  "\<forall>x\<in>set xs. \<forall>t. I t \<longrightarrow> I (upd x t) \<and> obs (upd x t) = obs t \<Longrightarrow> I s
   \<Longrightarrow> obs (fold upd xs s) = obs s"
  by (induction xs arbitrary: s) simp_all

lemma fold_written:
  assumes inv: "\<forall>z\<in>set xs. \<forall>t. I t \<longrightarrow> I (upd z t)"
    and x: "x \<in> set xs"
    and hit: "\<forall>t. I t \<longrightarrow> obs (upd x t) = v"
    and miss: "\<forall>z\<in>set xs. z \<noteq> x \<longrightarrow> (\<forall>t. I t \<longrightarrow> obs (upd z t) = obs t)"
    and s: "I s"
  shows "obs (fold upd xs s) = v"
proof -
  from x obtain ys zs where xs: "xs = ys @ x # zs" and nin: "x \<notin> set zs"
    by (meson split_list_last)
  have I1: "I (fold upd ys s)"
    using fold_inv[where I = I and upd = upd and xs = ys and s = s] inv xs s by simp
  have I2: "I (upd x (fold upd ys s))"
    using inv x I1 by blast
  have "obs (fold upd zs (upd x (fold upd ys s))) = obs (upd x (fold upd ys s))"
  proof (rule fold_untouched[where I = I and upd = upd and obs = obs and xs = zs, OF _ I2])
    show "\<forall>z\<in>set zs. \<forall>t. I t \<longrightarrow> I (upd z t) \<and> obs (upd z t) = obs t"
    proof (intro ballI allI impI)
      fix z t assume z: "z \<in> set zs" and t: "I t"
      from z nin have "z \<noteq> x" by blast
      moreover from z xs have "z \<in> set xs" by simp
      ultimately show "I (upd z t) \<and> obs (upd z t) = obs t"
        using inv miss t by blast
    qed
  qed
  also have "\<dots> = v" using hit I1 by blast
  finally show ?thesis by (simp add: xs)
qed

lemma py_sum_sum_list: "py_sum xs = sum_list xs"
proof -
  have "fold (\<lambda>p acc. acc + p) xs a = a + sum_list xs" for a :: real
    by (induction xs arbitrary: a) simp_all
  then show ?thesis by (simp add: py_sum_def)
qed

lemma fold_add_sum: "fold (\<lambda>x (acc::real). acc + f x) [0..<n] a = a + (\<Sum>x<n. f x)"
  by (induction n) simp_all

lemma count_nonzero_all: "count_nonzero xs = length xs \<longleftrightarrow> (\<forall>x\<in>set xs. x \<noteq> 0)"
proof (induction xs)
  case Nil
  then show ?case by (simp add: count_nonzero_def)
next
  case (Cons x xs)
  have le: "length (filter (\<lambda>x. x \<noteq> (0::real)) xs) \<le> length xs" by simp
  show ?case
  proof (cases "x = 0")
    case True
    from le have "length (filter (\<lambda>x. x \<noteq> (0::real)) xs) \<noteq> Suc (length xs)" by linarith
    with True show ?thesis by (simp add: count_nonzero_def)
  next
    case False
    with Cons show ?thesis by (simp add: count_nonzero_def)
  qed
qed

lemma sum_list_divide: "sum_list (map (\<lambda>x. x / s) row) = sum_list row / (s::real)"
  by (induction row) (simp_all add: add_divide_distrib)

lemma normalize_Inr_iff:
  "(\<exists>m'. normalize m = Inr m') \<longleftrightarrow> (\<forall>row\<in>set m. sum_list row \<noteq> 0)"
  by (auto simp: normalize_def Let_def count_nonzero_all)

lemma normalize_Inl:
  "\<exists>row\<in>set m. sum_list row = 0 \<Longrightarrow> normalize m = Inl RowSumZero"
  by (auto simp: normalize_def Let_def count_nonzero_all)

lemma normalize_Inr:
  assumes "\<forall>row\<in>set m. sum_list row \<noteq> 0"
  shows "normalize m = Inr (map (\<lambda>row. map (\<lambda>x. x / sum_list row) row) m)"
proof -
  have "map2 (\<lambda>row s. map (\<lambda>x. x / s) row) m (map sum_list m) =
        map (\<lambda>row. map (\<lambda>x. x / sum_list row) row) m"
    by (induction m) simp_all
  with assms show ?thesis
    by (simp add: normalize_def Let_def count_nonzero_all)
qed

section \<open>Row normalization\<close>

text \<open>
  C7. When no row of the matrix sums to zero, \<open>normalize\<close> returns a matrix of the
  same shape, every row of which sums to 1, each element being the input element
  divided by the sum of its row. When some row sums to zero it raises its error and
  returns no matrix. (The reals stand for the floats.)
\<close>

theorem normalize_contract:
  "(if \<forall>row\<in>set m. sum_list row \<noteq> 0
    then \<exists>m'. normalize m = Inr m' \<and> length m' = length m \<and>
           (\<forall>i<length m. length (m' ! i) = length (m ! i) \<and> sum_list (m' ! i) = 1 \<and>
              (\<forall>j<length (m ! i). m' ! i ! j = m ! i ! j / sum_list (m ! i)))
    else normalize m = Inl RowSumZero)"
proof (cases "\<forall>row\<in>set m. sum_list row \<noteq> 0")
  case True
  let ?m' = "map (\<lambda>row. map (\<lambda>x. x / sum_list row) row) m"
  have "normalize m = Inr ?m'" using True by (rule normalize_Inr)
  moreover have "length ?m' = length m" by simp
  moreover have "\<forall>i<length m. length (?m' ! i) = length (m ! i) \<and> sum_list (?m' ! i) = 1 \<and>
              (\<forall>j<length (m ! i). ?m' ! i ! j = m ! i ! j / sum_list (m ! i))"
  proof (intro allI impI)
    fix i assume i: "i < length m"
    then have "m ! i \<in> set m" by simp
    with True have "sum_list (m ! i) \<noteq> 0" by blast
    with i show "length (?m' ! i) = length (m ! i) \<and> sum_list (?m' ! i) = 1 \<and>
              (\<forall>j<length (m ! i). ?m' ! i ! j = m ! i ! j / sum_list (m ! i))"
      by (simp add: sum_list_divide)
  qed
  ultimately show ?thesis using True by simp
next
  case False
  then have "normalize m = Inl RowSumZero" by (intro normalize_Inl) blast
  with False show ?thesis by simp
qed

theorem normalize_contract_witness:
  "normalize [[1, 3], [2, 2]] = Inr [[1 / 4, 3 / 4], [1 / 2, 1 / 2]] \<and>
   sum_list [1 / 4, 3 / 4 :: real] = 1 \<and>
   normalize [[1, - 1], [2, 2]] = Inl RowSumZero"
  using normalize_contract[of "[[1, 3], [2, 2]]"] normalize_contract[of "[[1, - 1], [2, 2]]"]
  by (simp add: normalize_def count_nonzero_def)

section \<open>Writing the cells of a matrix\<close>

lemma has_shape_nth: "has_shape r c m \<Longrightarrow> a < r \<Longrightarrow> length (m ! a) = c"
  by (simp add: has_shape_def list_all_length)

lemma has_shape_set_cell: "has_shape r c m \<Longrightarrow> has_shape r c (set_cell m i j v)"
  by (cases "i < length m")
     (auto simp: has_shape_def set_cell_def list_all_length nth_list_update)

lemma nth_set_cell:
  "has_shape r c m \<Longrightarrow> a < r \<Longrightarrow> b < c \<Longrightarrow>
   set_cell m i j v ! a ! b = (if a = i \<and> b = j then v else m ! a ! b)"
  by (cases "i < length m")
     (auto simp: has_shape_def set_cell_def list_all_length nth_list_update)

lemma has_shape_fold_cells:
  "has_shape r c m \<Longrightarrow> has_shape r c (fold (\<lambda>q m. set_cell m (ri q) (ci q) (v q)) ps m)"
  using fold_inv[where I = "has_shape r c" and upd = "\<lambda>q m. set_cell m (ri q) (ci q) (v q)"
      and xs = ps and s = m]
  by (simp add: has_shape_set_cell)

lemma nth_fold_cells:
  assumes m: "has_shape r c m" and a: "a < r" and b: "b < c"
    and p: "p \<in> set ps" "ri p = a" "ci p = b"
    and uniq: "\<forall>q\<in>set ps. ri q = a \<and> ci q = b \<longrightarrow> q = p"
  shows "fold (\<lambda>q m. set_cell m (ri q) (ci q) (v q)) ps m ! a ! b = v p"
proof (rule fold_written[where I = "has_shape r c" and obs = "\<lambda>m. m ! a ! b" and x = p
      and upd = "\<lambda>q m. set_cell m (ri q) (ci q) (v q)"])
  show "\<forall>z\<in>set ps. \<forall>t. has_shape r c t \<longrightarrow> has_shape r c (set_cell t (ri z) (ci z) (v z))"
    by (simp add: has_shape_set_cell)
  show "p \<in> set ps" by (rule p(1))
  show "\<forall>t. has_shape r c t \<longrightarrow> set_cell t (ri p) (ci p) (v p) ! a ! b = v p"
    using a b p(2,3) by (simp add: nth_set_cell)
  show "\<forall>z\<in>set ps. z \<noteq> p \<longrightarrow>
          (\<forall>t. has_shape r c t \<longrightarrow> set_cell t (ri z) (ci z) (v z) ! a ! b = t ! a ! b)"
    using a b uniq by (auto simp: nth_set_cell)
  show "has_shape r c m" by (rule m)
qed

text \<open>Two nested loops that write every cell once, rows outside or columns outside.\<close>

lemma rows_outside:
  assumes "has_shape r c m"
  shows "has_shape r c (fold (\<lambda>i. fold (\<lambda>j m. set_cell m i j (f i j)) [0..<c]) [0..<r] m)"
    and "a < r \<Longrightarrow> b < c \<Longrightarrow>
         fold (\<lambda>i. fold (\<lambda>j m. set_cell m i j (f i j)) [0..<c]) [0..<r] m ! a ! b = f a b"
proof -
  let ?ps = "List.product [0..<r] [0..<c]"
  let ?upd = "\<lambda>q m. set_cell m (fst q) (snd q) (f (fst q) (snd q))"
  have eq: "fold (\<lambda>i. fold (\<lambda>j m. set_cell m i j (f i j)) [0..<c]) [0..<r] m = fold ?upd ?ps m"
    by (simp add: fold_nested_product split_def)
  show "has_shape r c (fold (\<lambda>i. fold (\<lambda>j m. set_cell m i j (f i j)) [0..<c]) [0..<r] m)"
    unfolding eq using assms by (rule has_shape_fold_cells)
  assume ab: "a < r" "b < c"
  have "fold ?upd ?ps m ! a ! b = f (fst (a, b)) (snd (a, b))"
    by (rule nth_fold_cells[where r = r and c = c and p = "(a, b)"])
       (use assms ab in auto)
  then show "fold (\<lambda>i. fold (\<lambda>j m. set_cell m i j (f i j)) [0..<c]) [0..<r] m ! a ! b = f a b"
    unfolding eq by simp
qed

lemma columns_outside:
  assumes "has_shape r c m"
  shows "has_shape r c (fold (\<lambda>j. fold (\<lambda>i m. set_cell m i j (f i j)) [0..<r]) [0..<c] m)"
    and "a < r \<Longrightarrow> b < c \<Longrightarrow>
         fold (\<lambda>j. fold (\<lambda>i m. set_cell m i j (f i j)) [0..<r]) [0..<c] m ! a ! b = f a b"
proof -
  let ?ps = "List.product [0..<c] [0..<r]"
  let ?upd = "\<lambda>q m. set_cell m (snd q) (fst q) (f (snd q) (fst q))"
  have eq: "fold (\<lambda>j. fold (\<lambda>i m. set_cell m i j (f i j)) [0..<r]) [0..<c] m = fold ?upd ?ps m"
    by (simp add: fold_nested_product split_def)
  show "has_shape r c (fold (\<lambda>j. fold (\<lambda>i m. set_cell m i j (f i j)) [0..<r]) [0..<c] m)"
    unfolding eq using assms by (rule has_shape_fold_cells)
  assume ab: "a < r" "b < c"
  have "fold ?upd ?ps m ! a ! b = f (snd (b, a)) (fst (b, a))"
    by (rule nth_fold_cells[where r = r and c = c and p = "(b, a)"])
       (use assms ab in auto)
  then show "fold (\<lambda>j. fold (\<lambda>i m. set_cell m i j (f i j)) [0..<r]) [0..<c] m ! a ! b = f a b"
    unfolding eq by simp
qed

lemma matrix_eqI:
  assumes "has_shape r c m" and "\<And>a b. a < r \<Longrightarrow> b < c \<Longrightarrow> m ! a ! b = f a b"
  shows "m = map (\<lambda>a. map (f a) [0..<c]) [0..<r]"
proof (rule nth_equalityI)
  show "length m = length (map (\<lambda>a. map (f a) [0..<c]) [0..<r])"
    using assms(1) by (simp add: has_shape_def)
next
  fix a assume "a < length m"
  then have a: "a < r" using assms(1) by (simp add: has_shape_def)
  have "m ! a = map (f a) [0..<c]"
    by (rule nth_equalityI) (use a assms has_shape_nth[OF assms(1) a] in simp_all)
  with a show "m ! a = map (\<lambda>a. map (f a) [0..<c]) [0..<r] ! a" by simp
qed

lemma has_shape_table: "has_shape r c (map (\<lambda>a. map (f a) [0..<c]) [0..<r])"
  by (simp add: has_shape_def list_all_length)

lemma has_shape_ones: "has_shape r c (np_ones2 r c)"
  by (simp add: has_shape_def np_ones2_def list_all_length)

section \<open>What each step leaves alone\<close>

lemma expectation_step_frame:
  "expectation_step st = Inr st' \<Longrightarrow> st' = st\<lparr>topic_prob := topic_prob st'\<rparr>"
  by (auto simp: expectation_step_def Let_def split: sum.splits)

lemma maximization_step_frame:
  "maximization_step K st = Inr st' \<Longrightarrow>
   st' = st\<lparr>topic_word_prob := topic_word_prob st', document_topic_prob := document_topic_prob st'\<rparr>"
  by (auto simp: maximization_step_def Let_def split: sum.splits)

lemma calculate_likelihood_frame:
  "calculate_likelihood K st = Inr st' \<Longrightarrow> \<exists>l. st' = st\<lparr>likelihoods := likelihoods st @ [l]\<rparr>"
  by (auto simp: calculate_likelihood_def split: sum.splits)

lemma em_iteration_frame:
  assumes "em_iteration K st = Inr st'"
  shows "term_doc_matrix st' = term_doc_matrix st"
    and "number_of_documents st' = number_of_documents st"
    and "vocabulary_size st' = vocabulary_size st"
    and "documents st' = documents st"
    and "vocabulary st' = vocabulary st"
    and "\<exists>l. likelihoods st' = likelihoods st @ [l]"
proof -
  from assms obtain st1 st2 where 1: "expectation_step st = Inr st1"
    and 2: "maximization_step K st1 = Inr st2" and 3: "calculate_likelihood K st2 = Inr st'"
    by (auto simp: em_iteration_def split: sum.splits)
  note f1 = expectation_step_frame[OF 1] and f2 = maximization_step_frame[OF 2]
  from calculate_likelihood_frame[OF 3] obtain l where f3: "st' = st2\<lparr>likelihoods := likelihoods st2 @ [l]\<rparr>"
    by blast
  show "term_doc_matrix st' = term_doc_matrix st"
    by (subst f3, subst f2, subst f1) simp
  show "number_of_documents st' = number_of_documents st"
    by (subst f3, subst f2, subst f1) simp
  show "vocabulary_size st' = vocabulary_size st"
    by (subst f3, subst f2, subst f1) simp
  show "documents st' = documents st"
    by (subst f3, subst f2, subst f1) simp
  show "vocabulary st' = vocabulary st"
    by (subst f3, subst f2, subst f1) simp
  have "likelihoods st2 = likelihoods st"
    by (subst f2, subst f1) simp
  with f3 have "likelihoods st' = likelihoods st @ [l]" by (metis corpus.select_convs(3) corpus.surjective corpus.update_convs(3))
  then show "\<exists>l. likelihoods st' = likelihoods st @ [l]" ..
qed

lemma em_loop_term_doc_matrix:
  "em_loop K eps its st = Inr st' \<Longrightarrow> term_doc_matrix st' = term_doc_matrix st"
proof (induction its arbitrary: st)
  case Nil
  then show ?case by simp
next
  case (Cons i its)
  from Cons.prems obtain st1 where 1: "em_iteration K st = Inr st1"
    by (auto split: sum.splits)
  show ?case
  proof (cases "i \<ge> 1 \<and> \<bar>likelihoods st1 ! i - likelihoods st1 ! (i - 1)\<bar> < eps")
    case True
    with Cons.prems 1 have "st' = st1" by simp
    with em_iteration_frame(1)[OF 1] show ?thesis by simp
  next
    case False
    with Cons.prems 1 have "em_loop K eps its st1 = Inr st'" by auto
    from Cons.IH[OF this] em_iteration_frame(1)[OF 1] show ?thesis by simp
  qed
qed

section \<open>The term-document matrix\<close>

lemma build_term_doc_matrix_cells:
  "has_shape (number_of_documents st) (vocabulary_size st) (term_doc_matrix (build_term_doc_matrix st))"
  "d < number_of_documents st \<Longrightarrow> w < vocabulary_size st \<Longrightarrow>
   term_doc_matrix (build_term_doc_matrix st) ! d ! w =
     real (count_list (documents st ! d) (vocabulary st ! w))"
  using rows_outside[OF has_shape_ones,
      where f = "\<lambda>i j. real (count_list (documents st ! i) (vocabulary st ! j))"]
  by (simp_all add: build_term_doc_matrix_def Let_def)

text \<open>
  C9. For a corpus whose counters agree with its lists (as \<open>build_corpus\<close> and
  \<open>build_vocabulary\<close> leave them), \<open>build_term_doc_matrix\<close> produces a matrix with one
  row per document and one column per vocabulary term whose entry for document \<open>d\<close>
  and term \<open>w\<close> is the number of occurrences of the term in the document; and the
  E-step, the M-step, the likelihood computation and the whole loop return a state
  with the same matrix.
\<close>

theorem term_doc_matrix_counts_and_is_read_only:
  assumes "number_of_documents st = length (documents st)"
    and "vocabulary_size st = length (vocabulary st)"
  shows "has_shape (length (documents st)) (length (vocabulary st))
           (term_doc_matrix (build_term_doc_matrix st)) \<and>
         (\<forall>d<length (documents st). \<forall>w<length (vocabulary st).
            term_doc_matrix (build_term_doc_matrix st) ! d ! w =
              real (count_list (documents st ! d) (vocabulary st ! w))) \<and>
         (\<forall>s s' K eps its.
            (expectation_step s = Inr s' \<longrightarrow> term_doc_matrix s' = term_doc_matrix s) \<and>
            (maximization_step K s = Inr s' \<longrightarrow> term_doc_matrix s' = term_doc_matrix s) \<and>
            (calculate_likelihood K s = Inr s' \<longrightarrow> term_doc_matrix s' = term_doc_matrix s) \<and>
            (em_loop K eps its s = Inr s' \<longrightarrow> term_doc_matrix s' = term_doc_matrix s))"
proof (intro conjI allI impI)
  show "has_shape (length (documents st)) (length (vocabulary st))
           (term_doc_matrix (build_term_doc_matrix st))"
    using build_term_doc_matrix_cells(1)[of st] assms by simp
next
  fix d w assume "d < length (documents st)" "w < length (vocabulary st)"
  then show "term_doc_matrix (build_term_doc_matrix st) ! d ! w =
              real (count_list (documents st ! d) (vocabulary st ! w))"
    using build_term_doc_matrix_cells(2)[of d st w] assms by simp
next
  fix s s' :: corpus assume "expectation_step s = Inr s'"
  from expectation_step_frame[OF this] show "term_doc_matrix s' = term_doc_matrix s"
    by (metis corpus.select_convs(4) corpus.surjective corpus.update_convs(7))
next
  fix s s' :: corpus and K assume "maximization_step K s = Inr s'"
  from maximization_step_frame[OF this] show "term_doc_matrix s' = term_doc_matrix s"
    by (metis corpus.select_convs(4) corpus.surjective corpus.update_convs(5,6))
next
  fix s s' :: corpus and K assume "calculate_likelihood K s = Inr s'"
  from calculate_likelihood_frame[OF this] show "term_doc_matrix s' = term_doc_matrix s"
    by auto
next
  fix s s' :: corpus and K eps its assume "em_loop K eps its s = Inr s'"
  then show "term_doc_matrix s' = term_doc_matrix s" by (rule em_loop_term_doc_matrix)
qed

lemma example_corpus_fields:
  "documents example_corpus = [[''the'', ''cat'', ''sat''], [''the'', ''dog'', ''sat'']]"
  "vocabulary example_corpus = [''the'', ''cat'', ''sat'', ''dog'']"
  "number_of_documents example_corpus = 2"
  "vocabulary_size example_corpus = 4"
  "likelihoods example_corpus = []"
  by (simp_all add: example_corpus_def build_corpus_def init_corpus_def Let_def py_split_def
      is_space_def)

lemma example_term_doc_matrix:
  "term_doc_matrix (build_term_doc_matrix example_corpus) = [[1, 1, 1, 0], [1, 0, 1, 1]]"
  by (simp add: build_term_doc_matrix_def example_corpus_fields Let_def np_ones2_def
      set_cell_def upt_rec eval_nat_numeral)

theorem term_doc_matrix_counts_and_is_read_only_witness:
  "has_shape 2 4 (term_doc_matrix (build_term_doc_matrix example_corpus)) \<and>
   term_doc_matrix (build_term_doc_matrix example_corpus) = [[1, 1, 1, 0], [1, 0, 1, 1]] \<and>
   term_doc_matrix (build_term_doc_matrix example_corpus) ! 1 ! 3 =
     real (count_list (documents example_corpus ! 1) (vocabulary example_corpus ! 3))"
  using term_doc_matrix_counts_and_is_read_only[of example_corpus]
  by (simp add: example_corpus_fields example_term_doc_matrix has_shape_def)

section \<open>The M-step\<close>

lemma update_topic_word_closed:
  assumes "has_shape K (vocabulary_size st) (topic_word_prob st)"
  shows "update_topic_word st K =
         map (\<lambda>k. map (\<lambda>w. \<Sum>d<number_of_documents st.
                 term_doc_matrix st ! d ! w * (topic_prob st ! d ! k ! w))
               [0..<vocabulary_size st]) [0..<K]"
proof (rule matrix_eqI)
  let ?f = "\<lambda>k w. \<Sum>d<number_of_documents st.
                 term_doc_matrix st ! d ! w * (topic_prob st ! d ! k ! w)"
  have eq: "update_topic_word st K =
        fold (\<lambda>w. fold (\<lambda>t m. set_cell m t w (?f t w)) [0..<K]) [0..<vocabulary_size st]
          (topic_word_prob st)"
    by (simp add: update_topic_word_def Let_def fold_add_sum)
  show "has_shape K (vocabulary_size st) (update_topic_word st K)"
    unfolding eq by (rule columns_outside(1)[OF assms])
  fix a b assume "a < K" "b < vocabulary_size st"
  then show "update_topic_word st K ! a ! b = ?f a b"
    unfolding eq by (rule columns_outside(2)[OF assms])
qed

lemma update_document_topic_closed:
  assumes "has_shape (number_of_documents st) K (document_topic_prob st)"
  shows "update_document_topic st K =
         map (\<lambda>d. map (\<lambda>k. \<Sum>w<vocabulary_size st.
                 term_doc_matrix st ! d ! w * (topic_prob st ! d ! k ! w))
               [0..<K]) [0..<number_of_documents st]"
proof (rule matrix_eqI)
  let ?f = "\<lambda>d k. \<Sum>w<vocabulary_size st.
                 term_doc_matrix st ! d ! w * (topic_prob st ! d ! k ! w)"
  have eq: "update_document_topic st K =
        fold (\<lambda>t. fold (\<lambda>d m. set_cell m d t (?f d t)) [0..<number_of_documents st]) [0..<K]
          (document_topic_prob st)"
    by (simp add: update_document_topic_def Let_def fold_add_sum)
  show "has_shape (number_of_documents st) K (update_document_topic st K)"
    unfolding eq by (rule columns_outside(1)[OF assms])
  fix a b assume "a < number_of_documents st" "b < K"
  then show "update_document_topic st K ! a ! b = ?f a b"
    unfolding eq by (rule columns_outside(2)[OF assms])
qed

lemma maximization_step_closed:
  assumes "tables_ok K st"
  shows "maximization_step K st =
     (case normalize (map (\<lambda>k. map (\<lambda>w. \<Sum>d<number_of_documents st.
                 term_doc_matrix st ! d ! w * (topic_prob st ! d ! k ! w))
               [0..<vocabulary_size st]) [0..<K]) of
        Inl e \<Rightarrow> Inl e
      | Inr twp \<Rightarrow>
        (case normalize (map (\<lambda>d. map (\<lambda>k. \<Sum>w<vocabulary_size st.
                 term_doc_matrix st ! d ! w * (topic_prob st ! d ! k ! w))
               [0..<K]) [0..<number_of_documents st]) of
           Inl e \<Rightarrow> Inl e
         | Inr dtp \<Rightarrow> Inr (st\<lparr>topic_word_prob := twp, document_topic_prob := dtp\<rparr>)))"
proof -
  from assms have twp: "has_shape K (vocabulary_size st) (topic_word_prob st)"
    and dtp: "has_shape (number_of_documents st) K (document_topic_prob st)"
    by (simp_all add: tables_ok_def)
  have 2: "update_document_topic (st\<lparr>topic_word_prob := twp'\<rparr>) K =
         map (\<lambda>d. map (\<lambda>k. \<Sum>w<vocabulary_size st.
                 term_doc_matrix st ! d ! w * (topic_prob st ! d ! k ! w))
               [0..<K]) [0..<number_of_documents st]" for twp'
    using update_document_topic_closed[of "st\<lparr>topic_word_prob := twp'\<rparr>" K] dtp by simp
  show ?thesis
    unfolding maximization_step_def Let_def update_topic_word_closed[OF twp] 2 ..
qed

lemma normalize_rows_sum:
  "normalize m = Inr m' \<Longrightarrow> i < length m \<Longrightarrow> sum_list (m' ! i) = 1"
proof -
  assume a: "normalize m = Inr m'" and i: "i < length m"
  then have nz: "\<forall>row\<in>set m. sum_list row \<noteq> 0" using normalize_Inr_iff[of m] by blast
  with a have "m' = map (\<lambda>row. map (\<lambda>x. x / sum_list row) row) m"
    by (simp add: normalize_Inr)
  moreover from nz i have "sum_list (m ! i) \<noteq> 0" by simp
  ultimately show ?thesis using i by (simp add: sum_list_divide)
qed

lemma normalize_shape:
  "normalize m = Inr m' \<Longrightarrow> has_shape r c m \<Longrightarrow> has_shape r c m'"
proof -
  assume a: "normalize m = Inr m'" and s: "has_shape r c m"
  then have nz: "\<forall>row\<in>set m. sum_list row \<noteq> 0" using normalize_Inr_iff[of m] by blast
  with a have "m' = map (\<lambda>row. map (\<lambda>x. x / sum_list row) row) m"
    by (simp add: normalize_Inr)
  with s show ?thesis by (simp add: has_shape_def list_all_length)
qed

lemma sum_list_table_row: "sum_list (map f [0..<c]) = (\<Sum>b<c. f b :: real)"
  by (simp add: interv_sum_list_conv_sum_set_nat lessThan_atLeast0)

lemma normalize_table:
  assumes "normalize (map (\<lambda>a. map (f a) [0..<c]) [0..<r]) = Inr m'"
  shows "has_shape r c m'"
    and "a < r \<Longrightarrow> (\<Sum>b<c. f a b) \<noteq> 0"
    and "a < r \<Longrightarrow> sum_list (m' ! a) = 1"
    and "a < r \<Longrightarrow> b < c \<Longrightarrow> m' ! a ! b = f a b / (\<Sum>b<c. f a b)"
proof -
  let ?m = "map (\<lambda>a. map (f a) [0..<c]) [0..<r]"
  from assms have nz: "\<forall>row\<in>set ?m. sum_list row \<noteq> 0"
    using normalize_Inr_iff[of ?m] by blast
  with assms have m': "m' = map (\<lambda>row. map (\<lambda>x. x / sum_list row) row) ?m"
    by (simp add: normalize_Inr)
  show "has_shape r c m'"
    by (rule normalize_shape[OF assms has_shape_table])
  show "a < r \<Longrightarrow> sum_list (m' ! a) = 1"
    using normalize_rows_sum[OF assms, of a] by simp
  assume a: "a < r"
  then have "?m ! a \<in> set ?m" by (intro nth_mem) simp
  with nz have "sum_list (?m ! a) \<noteq> 0" by blast
  with a show s: "(\<Sum>b<c. f a b) \<noteq> 0" by (simp add: sum_list_table_row)
  assume "b < c"
  with a show "m' ! a ! b = f a b / (\<Sum>b<c. f a b)"
    by (simp add: m' sum_list_table_row)
qed

text \<open>
  C4. On tables of the right shapes the M-step first builds, for every topic \<open>k\<close> and
  term \<open>w\<close>, the sum over the documents of \<open>C[d][w] * Z[d][k][w]\<close> and normalizes the
  rows of that table into the new \<open>topic_word_prob\<close> (failing there if a row sums
  to zero); only then it builds, for every document \<open>d\<close> and topic \<open>k\<close>, the sum over
  the terms of \<open>C[d][w] * Z[d][k][w]\<close> and normalizes it into the new
  \<open>document_topic_prob\<close>. Both tables are computed from the posterior \<open>Z\<close> and the
  counts \<open>C\<close> of the incoming state, neither from the other's result, and \<open>Z\<close> is
  returned unchanged. Each entry of a new table is its sum divided by the sum of
  its row, and each row sums to 1.
\<close>

theorem maximization_step_two_steps_same_posterior:
  assumes "tables_ok K st" and "posterior_ok K st"
  shows "maximization_step K st =
     (case normalize (map (\<lambda>k. map (\<lambda>w. \<Sum>d<number_of_documents st.
                 term_doc_matrix st ! d ! w * (topic_prob st ! d ! k ! w))
               [0..<vocabulary_size st]) [0..<K]) of
        Inl e \<Rightarrow> Inl e
      | Inr twp \<Rightarrow>
        (case normalize (map (\<lambda>d. map (\<lambda>k. \<Sum>w<vocabulary_size st.
                 term_doc_matrix st ! d ! w * (topic_prob st ! d ! k ! w))
               [0..<K]) [0..<number_of_documents st]) of
           Inl e \<Rightarrow> Inl e
         | Inr dtp \<Rightarrow> Inr (st\<lparr>topic_word_prob := twp, document_topic_prob := dtp\<rparr>))) \<and>
    (\<forall>st'. maximization_step K st = Inr st' \<longrightarrow>
       topic_prob st' = topic_prob st \<and>
       (\<forall>k<K. sum_list (topic_word_prob st' ! k) = 1 \<and>
          (\<forall>w<vocabulary_size st. topic_word_prob st' ! k ! w =
             (\<Sum>d<number_of_documents st.
                 term_doc_matrix st ! d ! w * (topic_prob st ! d ! k ! w)) /
             (\<Sum>w'<vocabulary_size st. \<Sum>d<number_of_documents st.
                 term_doc_matrix st ! d ! w' * (topic_prob st ! d ! k ! w')))) \<and>
       (\<forall>d<number_of_documents st. sum_list (document_topic_prob st' ! d) = 1 \<and>
          (\<forall>k<K. document_topic_prob st' ! d ! k =
             (\<Sum>w<vocabulary_size st.
                 term_doc_matrix st ! d ! w * (topic_prob st ! d ! k ! w)) /
             (\<Sum>k'<K. \<Sum>w<vocabulary_size st.
                 term_doc_matrix st ! d ! w * (topic_prob st ! d ! k' ! w)))))"
proof (intro conjI allI impI)
  show "maximization_step K st =
     (case normalize (map (\<lambda>k. map (\<lambda>w. \<Sum>d<number_of_documents st.
                 term_doc_matrix st ! d ! w * (topic_prob st ! d ! k ! w))
               [0..<vocabulary_size st]) [0..<K]) of
        Inl e \<Rightarrow> Inl e
      | Inr twp \<Rightarrow>
        (case normalize (map (\<lambda>d. map (\<lambda>k. \<Sum>w<vocabulary_size st.
                 term_doc_matrix st ! d ! w * (topic_prob st ! d ! k ! w))
               [0..<K]) [0..<number_of_documents st]) of
           Inl e \<Rightarrow> Inl e
         | Inr dtp \<Rightarrow> Inr (st\<lparr>topic_word_prob := twp, document_topic_prob := dtp\<rparr>)))"
    by (rule maximization_step_closed[OF assms(1)])
next
  fix st' assume ok: "maximization_step K st = Inr st'"
  let ?A = "\<lambda>k w. \<Sum>d<number_of_documents st.
                 term_doc_matrix st ! d ! w * (topic_prob st ! d ! k ! w)"
  let ?B = "\<lambda>d k. \<Sum>w<vocabulary_size st.
                 term_doc_matrix st ! d ! w * (topic_prob st ! d ! k ! w)"
  from ok obtain twp dtp where
    twp: "normalize (map (\<lambda>k. map (?A k) [0..<vocabulary_size st]) [0..<K]) = Inr twp"
    and dtp: "normalize (map (\<lambda>d. map (?B d) [0..<K]) [0..<number_of_documents st]) = Inr dtp"
    and st': "st' = st\<lparr>topic_word_prob := twp, document_topic_prob := dtp\<rparr>"
    unfolding maximization_step_closed[OF assms(1)] by (auto split: sum.splits)
  show "topic_prob st' = topic_prob st" by (simp add: st')
  {
    fix k assume k: "k < K"
    show "sum_list (topic_word_prob st' ! k) = 1"
      using normalize_table(3)[OF twp k] by (simp add: st')
    fix w assume w: "w < vocabulary_size st"
    show "topic_word_prob st' ! k ! w = ?A k w / (\<Sum>w'<vocabulary_size st. ?A k w')"
      using normalize_table(4)[OF twp k w] by (simp add: st')
  }
  {
    fix d assume d: "d < number_of_documents st"
    show "sum_list (document_topic_prob st' ! d) = 1"
      using normalize_table(3)[OF dtp d] by (simp add: st')
    fix k assume k: "k < K"
    show "document_topic_prob st' ! d ! k = ?B d k / (\<Sum>k'<K. ?B d k')"
      using normalize_table(4)[OF dtp d k] by (simp add: st')
  }
qed

lemma example_posterior_ok: "tables_ok 2 example_posterior \<and> posterior_ok 2 example_posterior"
  by code_simp

lemma example_maximization_step:
  "maximization_step 2 example_posterior =
     Inr (example_posterior\<lparr>
       topic_word_prob := [[1 / 3, 1 / 6, 1 / 3, 1 / 6], [1 / 3, 1 / 6, 1 / 3, 1 / 6]],
       document_topic_prob := [[1 / 2, 1 / 2], [1 / 2, 1 / 2]]\<rparr>)"
  by code_simp

theorem maximization_step_two_steps_same_posterior_witness:
  "tables_ok 2 example_posterior \<and> posterior_ok 2 example_posterior \<and>
   maximization_step 2 example_posterior =
     Inr (example_posterior\<lparr>
       topic_word_prob := [[1 / 3, 1 / 6, 1 / 3, 1 / 6], [1 / 3, 1 / 6, 1 / 3, 1 / 6]],
       document_topic_prob := [[1 / 2, 1 / 2], [1 / 2, 1 / 2]]\<rparr>)"
proof -
  note ok = example_posterior_ok
  from maximization_step_two_steps_same_posterior[OF ok[THEN conjunct1] ok[THEN conjunct2]]
  have "\<forall>st'. maximization_step 2 example_posterior = Inr st' \<longrightarrow>
          topic_prob st' = topic_prob example_posterior"
    by blast
  with ok example_maximization_step show ?thesis by simp
qed

section \<open>The E-step\<close>

lemma forM_error_or_result:
  "(\<And>x s. x \<in> set xs \<Longrightarrow> body x s = Inl e \<or> (\<exists>s'. body x s = Inr s')) \<Longrightarrow>
   forM xs body s = Inl e \<or> (\<exists>s'. forM xs body s = Inr s')"
proof (induction xs arbitrary: s)
  case Nil
  then show ?case by simp
next
  case (Cons y ys)
  from Cons.prems[of y s] consider "body y s = Inl e" | s' where "body y s = Inr s'" by auto
  then show ?case
  proof cases
    case 1
    then show ?thesis by simp
  next
    case 2
    moreover have "forM ys body s' = Inl e \<or> (\<exists>s''. forM ys body s' = Inr s'')"
      by (rule Cons.IH) (use Cons.prems in simp)
    ultimately show ?thesis by simp
  qed
qed

lemma has_shape3_nth: "has_shape3 a b c t \<Longrightarrow> d < a \<Longrightarrow> has_shape b c (t ! d)"
  by (simp add: has_shape3_def list_all_length)

lemma set_column_shape:
  "has_shape K V m \<Longrightarrow> length v = K \<Longrightarrow> has_shape K V (set_column m j v)"
  by (simp add: has_shape_def set_column_def list_all_length)

lemma set_column_nth:
  "has_shape K V m \<Longrightarrow> length v = K \<Longrightarrow> k < K \<Longrightarrow> w < V \<Longrightarrow>
   set_column m j v ! k ! w = (if w = j then v ! k else m ! k ! w)"
  by (simp add: has_shape_def set_column_def list_all_length)

lemma tensor_write_shape:
  assumes "has_shape3 D K V tp" and "length v = K"
  shows "has_shape3 D K V (tp[i := set_column (tp ! i) j v])"
proof (cases "i < D")
  case True
  with assms have "has_shape K V (set_column (tp ! i) j v)"
    by (intro set_column_shape has_shape3_nth)
  with assms(1) True show ?thesis
    by (auto simp: has_shape3_def list_all_length nth_list_update)
next
  case False
  with assms(1) have "length tp \<le> i"
    by (simp add: has_shape3_def)
  then have "tp[i := set_column (tp ! i) j v] = tp"
    by (rule list_update_beyond)
  with assms(1) show ?thesis by simp
qed

lemma tensor_write_nth:
  assumes "has_shape3 D K V tp" and "length v = K" and "d < D" and "k < K" and "w < V"
  shows "tp[i := set_column (tp ! i) j v] ! d ! k ! w =
         (if d = i \<and> w = j then v ! k else tp ! d ! k ! w)"
proof (cases "d = i")
  case True
  with assms have "tp[i := set_column (tp ! i) j v] ! d = set_column (tp ! i) j v"
    by (simp add: has_shape3_def)
  moreover have "has_shape K V (tp ! i)"
    using assms(1,3) True by (intro has_shape3_nth) simp_all
  ultimately show ?thesis
    using assms(2,4,5) True by (simp add: set_column_nth)
next
  case False
  then show ?thesis by simp
qed

lemma tensor_eqI:
  assumes "has_shape3 a b c t"
    and "\<And>d k w. d < a \<Longrightarrow> k < b \<Longrightarrow> w < c \<Longrightarrow> t ! d ! k ! w = f d k w"
  shows "t = map (\<lambda>d. map (\<lambda>k. map (f d k) [0..<c]) [0..<b]) [0..<a]"
proof (rule nth_equalityI)
  show "length t = length (map (\<lambda>d. map (\<lambda>k. map (f d k) [0..<c]) [0..<b]) [0..<a])"
    using assms(1) by (simp add: has_shape3_def)
next
  fix d assume "d < length t"
  then have d: "d < a" using assms(1) by (simp add: has_shape3_def)
  have "t ! d = map (\<lambda>k. map (f d k) [0..<c]) [0..<b]"
    by (rule matrix_eqI[OF has_shape3_nth[OF assms(1) d]]) (rule assms(2)[OF d])
  with d show "t ! d = map (\<lambda>d. map (\<lambda>k. map (f d k) [0..<c]) [0..<b]) [0..<a] ! d"
    by simp
qed

lemma has_shape3_ones: "has_shape3 a b c (np_ones3 a b c)"
  by (simp add: has_shape3_def has_shape_def np_ones3_def list_all_length)

lemma estep_prob:
  assumes "has_shape D K dtp" and "has_shape K V twp" and "i < D"
  shows "map2 (*) (dtp ! i) (column twp j) = map (\<lambda>k. dtp ! i ! k * twp ! k ! j) [0..<K]"
proof (rule nth_equalityI)
  have l: "length (dtp ! i) = K" "length twp = K"
    using assms by (simp_all add: has_shape_def list_all_length)
  then show "length (map2 (*) (dtp ! i) (column twp j)) =
             length (map (\<lambda>k. dtp ! i ! k * twp ! k ! j) [0..<K])"
    by (simp add: column_def)
  fix k assume "k < length (map2 (*) (dtp ! i) (column twp j))"
  with l show "map2 (*) (dtp ! i) (column twp j) ! k =
               map (\<lambda>k. dtp ! i ! k * twp ! k ! j) [0..<K] ! k"
    by (simp add: column_def)
qed

lemma estep_cell_closed:
  assumes "has_shape D K dtp" and "has_shape K V twp" and "i < D"
  shows "estep_cell dtp twp i j tp =
     (if (\<Sum>k<K. dtp ! i ! k * twp ! k ! j) = 0 then Inl (SystemExit 0)
      else Inr (tp[i := set_column (tp ! i) j
             (map (\<lambda>k. dtp ! i ! k * twp ! k ! j / (\<Sum>k<K. dtp ! i ! k * twp ! k ! j))
                [0..<K])]))"
  by (simp add: estep_cell_def Let_def estep_prob[OF assms] py_sum_sum_list
      sum_list_table_row comp_def)

lemma expectation_step_closed:
  assumes "tables_ok K st"
  shows "expectation_step st =
     (if \<exists>d<number_of_documents st. \<exists>w<vocabulary_size st. topic_mass K st d w = 0
      then Inl (SystemExit 0)
      else Inr (st\<lparr>topic_prob :=
             map (\<lambda>d. map (\<lambda>k. map (\<lambda>w.
                 document_topic_prob st ! d ! k * (topic_word_prob st ! k ! w) /
                 topic_mass K st d w)
               [0..<vocabulary_size st]) [0..<K]) [0..<number_of_documents st]\<rparr>))"
proof -
  let ?D = "number_of_documents st" and ?V = "vocabulary_size st"
  let ?dtp = "document_topic_prob st" and ?twp = "topic_word_prob st"
  let ?g = "\<lambda>d k w. ?dtp ! d ! k * (?twp ! k ! w) / topic_mass K st d w"
  define cell where "cell = estep_cell ?dtp ?twp"
  define upd where "upd q tp = tp[fst q := set_column (tp ! fst q) (snd q)
      (map (\<lambda>k. ?g (fst q) k (snd q)) [0..<K])]" for q and tp :: tensor
  let ?tp0 = "np_ones3 ?D K ?V"
  from assms have dtp: "has_shape ?D K ?dtp" and twp: "has_shape K ?V ?twp"
    by (simp_all add: tables_ok_def)
  from twp have lenK: "length ?twp = K" by (simp add: has_shape_def)
  have cell_eq: "cell i j tp =
      (if topic_mass K st i j = 0 then Inl (SystemExit 0) else Inr (upd (i, j) tp))"
    if "i < ?D" for i j tp
    unfolding cell_def upd_def topic_mass_def
    using estep_cell_closed[OF dtp twp that, of j tp] by simp
  have unfold: "expectation_step st =
      (case forM [0..<?D] (\<lambda>i. forM [0..<?V] (cell i)) ?tp0 of
         Inl e \<Rightarrow> Inl e | Inr tp \<Rightarrow> Inr (st\<lparr>topic_prob := tp\<rparr>))"
    by (simp add: expectation_step_def Let_def cell_def lenK)
  show ?thesis
  proof (cases "\<exists>d<?D. \<exists>w<?V. topic_mass K st d w = 0")
    case True
    then obtain d w where d: "d < ?D" and w: "w < ?V" and z: "topic_mass K st d w = 0"
      by blast
    have inner: "forM [0..<?V] (cell d) t = Inl (SystemExit 0)" for t
    proof (rule forM_raises[where x = w])
      show "w \<in> set [0..<?V]" using w by simp
      show "cell d w s = Inl (SystemExit 0)" for s using cell_eq[OF d] z by simp
      show "cell d y s = Inl (SystemExit 0) \<or> (\<exists>s'. cell d y s = Inr s')" for y s
        using cell_eq[OF d] by simp
    qed
    have "forM [0..<?D] (\<lambda>i. forM [0..<?V] (cell i)) ?tp0 = Inl (SystemExit 0)"
    proof (rule forM_raises[where x = d])
      show "d \<in> set [0..<?D]" using d by simp
      show "forM [0..<?V] (cell d) s = Inl (SystemExit 0)" for s by (rule inner)
      fix y s assume "y \<in> set [0..<?D]"
      then have y: "y < ?D" by simp
      show "forM [0..<?V] (cell y) s = Inl (SystemExit 0) \<or>
            (\<exists>s'. forM [0..<?V] (cell y) s = Inr s')"
        by (rule forM_error_or_result) (use cell_eq[OF y] in simp)
    qed
    with True show ?thesis unfolding unfold by simp
  next
    case False
    then have nz: "topic_mass K st d w \<noteq> 0" if "d < ?D" "w < ?V" for d w
      using that by blast
    have inner: "forM [0..<?V] (cell i) t = Inr (fold (\<lambda>j. upd (i, j)) [0..<?V] t)"
      if "i < ?D" for i t
      by (rule forM_pure) (use cell_eq[OF that] nz[OF that] in simp)
    have outer: "forM [0..<?D] (\<lambda>i. forM [0..<?V] (cell i)) ?tp0 =
        Inr (fold (\<lambda>i. fold (\<lambda>j. upd (i, j)) [0..<?V]) [0..<?D] ?tp0)"
      by (rule forM_pure) (use inner in simp)
    let ?ps = "List.product [0..<?D] [0..<?V]"
    have flat: "fold (\<lambda>i. fold (\<lambda>j. upd (i, j)) [0..<?V]) [0..<?D] ?tp0 = fold upd ?ps ?tp0"
      by (simp add: fold_nested_product)
    have inv: "\<forall>z\<in>set ?ps. \<forall>t. has_shape3 ?D K ?V t \<longrightarrow> has_shape3 ?D K ?V (upd z t)"
      by (simp add: upd_def tensor_write_shape)
    have "fold upd ?ps ?tp0 = map (\<lambda>d. map (\<lambda>k. map (?g d k) [0..<?V]) [0..<K]) [0..<?D]"
    proof (rule tensor_eqI)
      show "has_shape3 ?D K ?V (fold upd ?ps ?tp0)"
        using fold_inv[where I = "has_shape3 ?D K ?V" and upd = upd and xs = ?ps
            and s = ?tp0] inv has_shape3_ones by blast
      fix d k w assume d: "d < ?D" and k: "k < K" and w: "w < ?V"
      show "fold upd ?ps ?tp0 ! d ! k ! w = ?g d k w"
      proof (rule fold_written[where I = "has_shape3 ?D K ?V" and x = "(d, w)"
            and obs = "\<lambda>t. t ! d ! k ! w" and upd = upd])
        show "\<forall>z\<in>set ?ps. \<forall>t. has_shape3 ?D K ?V t \<longrightarrow> has_shape3 ?D K ?V (upd z t)"
          by (rule inv)
        show "(d, w) \<in> set ?ps" using d w by simp
        show "\<forall>t. has_shape3 ?D K ?V t \<longrightarrow> upd (d, w) t ! d ! k ! w = ?g d k w"
          using d k w by (simp add: upd_def tensor_write_nth)
        show "\<forall>z\<in>set ?ps. z \<noteq> (d, w) \<longrightarrow>
                (\<forall>t. has_shape3 ?D K ?V t \<longrightarrow> upd z t ! d ! k ! w = t ! d ! k ! w)"
          using d k w by (auto simp: upd_def tensor_write_nth)
        show "has_shape3 ?D K ?V ?tp0" by (rule has_shape3_ones)
      qed
    qed
    with False show ?thesis unfolding unfold outer flat by simp
  qed
qed

lemma posterior_sums_to_one:
  assumes "topic_mass K st d w \<noteq> 0"
  shows "(\<Sum>k<K. document_topic_prob st ! d ! k * (topic_word_prob st ! k ! w) /
            topic_mass K st d w) = 1"
proof -
  have "(\<Sum>k<K. document_topic_prob st ! d ! k * (topic_word_prob st ! k ! w) /
            topic_mass K st d w) = topic_mass K st d w / topic_mass K st d w"
    unfolding topic_mass_def by (rule sum_divide_distrib[symmetric])
  with assms show ?thesis by simp
qed

text \<open>
  C5. On tables of the right shapes the E-step completes exactly when the topic mass
  \<open>s\<close> of every document and term is nonzero, and then every posterior entry
  \<open>Z[d][k][w]\<close> is \<open>P(z | d) * P(w | z) / s\<close>, so that the entries of a document and a
  term sum to 1 over the topics. Nothing but the posterior changes.
\<close>

theorem expectation_step_posterior:
  assumes "tables_ok K st"
  shows "((\<forall>d<number_of_documents st. \<forall>w<vocabulary_size st. topic_mass K st d w \<noteq> 0)
            \<longrightarrow> (\<exists>st'. expectation_step st = Inr st')) \<and>
         (\<forall>st'. expectation_step st = Inr st' \<longrightarrow>
            st' = st\<lparr>topic_prob := topic_prob st'\<rparr> \<and>
            has_shape3 (number_of_documents st) K (vocabulary_size st) (topic_prob st') \<and>
            (\<forall>d<number_of_documents st. \<forall>w<vocabulary_size st.
               topic_mass K st d w \<noteq> 0 \<and>
               (\<forall>k<K. topic_prob st' ! d ! k ! w =
                  document_topic_prob st ! d ! k * (topic_word_prob st ! k ! w) /
                  topic_mass K st d w) \<and>
               (\<Sum>k<K. topic_prob st' ! d ! k ! w) = 1))"
proof (intro conjI allI impI)
  assume "\<forall>d<number_of_documents st. \<forall>w<vocabulary_size st. topic_mass K st d w \<noteq> 0"
  then show "\<exists>st'. expectation_step st = Inr st'"
    unfolding expectation_step_closed[OF assms] by auto
next
  fix st' assume ok: "expectation_step st = Inr st'"
  let ?Z = "map (\<lambda>d. map (\<lambda>k. map (\<lambda>w.
                 document_topic_prob st ! d ! k * (topic_word_prob st ! k ! w) /
                 topic_mass K st d w)
               [0..<vocabulary_size st]) [0..<K]) [0..<number_of_documents st]"
  from ok have nz: "\<not> (\<exists>d<number_of_documents st. \<exists>w<vocabulary_size st.
      topic_mass K st d w = 0)"
    unfolding expectation_step_closed[OF assms] by (auto split: if_splits)
  with ok have st': "st' = st\<lparr>topic_prob := ?Z\<rparr>"
    unfolding expectation_step_closed[OF assms] by (simp split: if_splits)
  then have Z: "topic_prob st' = ?Z" by simp
  show "st' = st\<lparr>topic_prob := topic_prob st'\<rparr>" by (rule expectation_step_frame[OF ok])
  show "has_shape3 (number_of_documents st) K (vocabulary_size st) (topic_prob st')"
    unfolding Z by (simp add: has_shape3_def has_shape_def list_all_length)
  fix d w assume d: "d < number_of_documents st" and w: "w < vocabulary_size st"
  from nz d w show m: "topic_mass K st d w \<noteq> 0" by blast
  show "(\<Sum>k<K. topic_prob st' ! d ! k ! w) = 1"
    unfolding Z using d w posterior_sums_to_one[OF m] by simp
  fix k assume "k < K"
  with d w show "topic_prob st' ! d ! k ! w =
                  document_topic_prob st ! d ! k * (topic_word_prob st ! k ! w) /
                  topic_mass K st d w"
    unfolding Z by simp
qed

lemma example_uniform_ok: "tables_ok 2 example_uniform"
  by code_simp

lemma example_expectation_step: "expectation_step example_uniform = Inr example_posterior"
  by code_simp

lemma example_posterior_value:
  "topic_prob example_posterior =
     [[[1 / 2, 1 / 2, 1 / 2, 1 / 2], [1 / 2, 1 / 2, 1 / 2, 1 / 2]],
      [[1 / 2, 1 / 2, 1 / 2, 1 / 2], [1 / 2, 1 / 2, 1 / 2, 1 / 2]]]"
  by (simp add: example_posterior_def)

theorem expectation_step_posterior_witness:
  "tables_ok 2 example_uniform \<and>
   expectation_step example_uniform = Inr example_posterior \<and>
   topic_prob example_posterior ! 1 ! 0 ! 3 = 1 / 2 \<and>
   (\<Sum>k<2. topic_prob example_posterior ! 1 ! k ! 3) = 1"
  using expectation_step_posterior[OF example_uniform_ok]
    example_uniform_ok example_expectation_step
  by (simp add: example_posterior_value lessThan_Suc eval_nat_numeral)

section \<open>Degenerate topic mass\<close>

lemma em_iteration_estep_error:
  "expectation_step st = Inl e \<Longrightarrow> em_iteration K st = Inl e"
  by (simp add: em_iteration_def)

text \<open>
  C1, as the program has it. When the topic mass of some document and term is zero,
  the E-step stops by Python's \<open>exit(0)\<close>: it raises SystemExit with status 0, which
  ends the interpreter with the status of a successful run. No posterior is
  produced, the iteration and the loop of \<open>plsa\<close> end with the same exit, and no
  error of the program's own is raised.
\<close>

theorem expectation_step_zero_mass_exits:
  assumes "tables_ok K st"
    and "d < number_of_documents st" and "w < vocabulary_size st"
    and "topic_mass K st d w = 0"
  shows "expectation_step st = Inl (SystemExit 0) \<and>
         em_iteration K st = Inl (SystemExit 0) \<and>
         em_loop K eps (i # its) st = Inl (SystemExit 0)"
proof -
  have e: "expectation_step st = Inl (SystemExit 0)"
    unfolding expectation_step_closed[OF assms(1)] using assms(2-4) by auto
  then have "em_iteration K st = Inl (SystemExit 0)" by (rule em_iteration_estep_error)
  with e show ?thesis by simp
qed

lemma degenerate_example_ok: "tables_ok 2 degenerate_example"
  by code_simp

lemma degenerate_example_mass: "topic_mass 2 degenerate_example 0 1 = 0"
  by code_simp

lemma degenerate_example_sizes:
  "number_of_documents degenerate_example = 1" "vocabulary_size degenerate_example = 2"
  by code_simp+

theorem expectation_step_zero_mass_exits_witness:
  "topic_mass 2 degenerate_example 0 1 = 0 \<and>
   expectation_step degenerate_example = Inl (SystemExit 0) \<and>
   em_iteration 2 degenerate_example = Inl (SystemExit 0) \<and>
   em_loop 2 (1 / 1000) [0, 1, 2] degenerate_example = Inl (SystemExit 0)"
proof -
  have d: "0 < number_of_documents degenerate_example"
    and w: "1 < vocabulary_size degenerate_example"
    by (simp_all add: degenerate_example_sizes)
  from expectation_step_zero_mass_exits[OF degenerate_example_ok d w degenerate_example_mass,
      of "1 / 1000" 0 "[1, 2]"] degenerate_example_mass
  show ?thesis by blast
qed

text \<open>
  The claim as the specification words it fails on the program: the outcome at a
  zero topic mass is the process exit, not an error handed to the caller. The run
  below is one that \<open>plsa\<close> itself reaches, with random draws that contain zeros.
\<close>

lemma plsa_unfold:
  assumes "0 \<le> number_of_topics"
    and "initialize_randomly draw1 draw2 (nat number_of_topics)
           ((build_term_doc_matrix st)\<lparr>topic_prob :=
               np_zeros3 (number_of_documents (build_term_doc_matrix st)) (nat number_of_topics)
                 (vocabulary_size (build_term_doc_matrix st))\<rparr>) = r"
  shows "plsa draw1 draw2 number_of_topics max_iter eps st =
         (case r of Inl e \<Rightarrow> Inl e
          | Inr st3 \<Rightarrow> em_loop (nat number_of_topics) eps [0..<nat max_iter] st3)"
  using assms by (simp add: plsa_def Let_def initialize_def)

lemma em_loop_upt_first_error:
  "0 < n \<Longrightarrow> em_iteration K st = Inl e \<Longrightarrow> em_loop K eps [0..<n] st = Inl e"
  by (simp add: upt_conv_Cons)

lemma degenerate_initialize:
  "initialize_randomly (\<lambda>i j. if j = 0 then 1 / 2 else 0) (\<lambda>i j. if i = j then 1 / 2 else 0)
     (nat 2)
     ((build_term_doc_matrix degenerate_corpus)\<lparr>topic_prob :=
         np_zeros3 (number_of_documents (build_term_doc_matrix degenerate_corpus)) (nat 2)
           (vocabulary_size (build_term_doc_matrix degenerate_corpus))\<rparr>) =
   Inr degenerate_example"
  by code_simp

lemma degenerate_expectation_step:
  "expectation_step degenerate_example = Inl (SystemExit 0)"
  by code_simp

theorem zero_mass_ends_the_process_counterexample:
  "topic_mass 2 degenerate_example 0 1 = 0 \<and>
   expectation_step degenerate_example = Inl (SystemExit 0) \<and>
   expectation_step degenerate_example \<noteq> Inl RowSumZero \<and>
   expectation_step degenerate_example \<noteq> Inl ValueError \<and>
   plsa (\<lambda>i j. if j = 0 then 1 / 2 else 0) (\<lambda>i j. if i = j then 1 / 2 else 0) 2 50 (1 / 1000)
     degenerate_corpus = Inl (SystemExit 0)"
proof -
  have "em_loop (nat 2) (1 / 1000) [0..<nat 50] degenerate_example = Inl (SystemExit 0)"
    by (rule em_loop_upt_first_error)
       (simp_all add: em_iteration_estep_error[OF degenerate_expectation_step])
  then have "plsa (\<lambda>i j. if j = 0 then 1 / 2 else 0) (\<lambda>i j. if i = j then 1 / 2 else 0) 2 50
      (1 / 1000) degenerate_corpus = Inl (SystemExit 0)"
    by (subst plsa_unfold[OF _ degenerate_initialize]) simp_all
  with degenerate_example_mass degenerate_expectation_step show ?thesis
    by simp
qed

section \<open>The likelihood\<close>

lemma calculate_likelihood_closed:
  "calculate_likelihood K st =
     (if \<exists>d<number_of_documents st. \<exists>w<vocabulary_size st. topic_mass K st d w \<le> 0
      then Inl ValueError
      else Inr (st\<lparr>likelihoods := likelihoods st @
             [\<Sum>d<number_of_documents st. \<Sum>w<vocabulary_size st.
                term_doc_matrix st ! d ! w * log 2 (topic_mass K st d w)]\<rparr>))"
proof -
  let ?D = "number_of_documents st" and ?V = "vocabulary_size st"
  let ?f = "\<lambda>i j. term_doc_matrix st ! i ! j * log 2 (topic_mass K st i j)"
  define cell where "cell = (\<lambda>i j (currLog :: real).
      let counter = fold (\<lambda>k counter.
            counter + document_topic_prob st ! i ! k * (topic_word_prob st ! k ! j)) [0..<K] 0
      in case math_log counter 2 of
           Inl e \<Rightarrow> Inl e
         | Inr l \<Rightarrow> Inr (currLog + term_doc_matrix st ! i ! j * l))"
  have cell_eq: "cell i j acc =
      (if topic_mass K st i j \<le> 0 then Inl ValueError else Inr (acc + ?f i j))" for i j acc
    by (simp add: cell_def Let_def fold_add_sum topic_mass_def math_log_def log_def)
  have unfold: "calculate_likelihood K st =
      (case forM [0..<?D] (\<lambda>i. forM [0..<?V] (cell i)) 0 of
         Inl e \<Rightarrow> Inl e
       | Inr currLog \<Rightarrow> Inr (st\<lparr>likelihoods := likelihoods st @ [currLog]\<rparr>))"
    by (simp add: calculate_likelihood_def cell_def)
  show ?thesis
  proof (cases "\<exists>d<?D. \<exists>w<?V. topic_mass K st d w \<le> 0")
    case True
    then obtain d w where d: "d < ?D" and w: "w < ?V" and z: "topic_mass K st d w \<le> 0"
      by blast
    have inner: "forM [0..<?V] (cell d) t = Inl ValueError" for t
    proof (rule forM_raises[where x = w])
      show "w \<in> set [0..<?V]" using w by simp
      show "cell d w s = Inl ValueError" for s using cell_eq z by simp
      show "cell d y s = Inl ValueError \<or> (\<exists>s'. cell d y s = Inr s')" for y s
        using cell_eq by simp
    qed
    have "forM [0..<?D] (\<lambda>i. forM [0..<?V] (cell i)) 0 = Inl ValueError"
    proof (rule forM_raises[where x = d])
      show "d \<in> set [0..<?D]" using d by simp
      show "forM [0..<?V] (cell d) s = Inl ValueError" for s by (rule inner)
      show "forM [0..<?V] (cell y) s = Inl ValueError \<or>
            (\<exists>s'. forM [0..<?V] (cell y) s = Inr s')" for y s
        by (rule forM_error_or_result) (use cell_eq in simp)
    qed
    with True show ?thesis unfolding unfold by simp
  next
    case False
    then have pos: "\<not> topic_mass K st d w \<le> 0" if "d < ?D" "w < ?V" for d w
      using that by blast
    have inner: "forM [0..<?V] (cell i) t = Inr (t + (\<Sum>j<?V. ?f i j))" if "i < ?D" for i t
    proof -
      have "forM [0..<?V] (cell i) t = Inr (fold (\<lambda>j acc. acc + ?f i j) [0..<?V] t)"
        by (rule forM_pure) (use cell_eq pos[OF that] in simp)
      then show ?thesis by (simp add: fold_add_sum)
    qed
    have "forM [0..<?D] (\<lambda>i. forM [0..<?V] (cell i)) 0 =
          Inr (fold (\<lambda>i acc. acc + (\<Sum>j<?V. ?f i j)) [0..<?D] 0)"
      by (rule forM_pure) (use inner in simp)
    then have "forM [0..<?D] (\<lambda>i. forM [0..<?V] (cell i)) 0 = Inr (\<Sum>i<?D. \<Sum>j<?V. ?f i j)"
      by (simp add: fold_add_sum)
    with False show ?thesis unfolding unfold by simp
  qed
qed

lemma topic_mass_cong:
  "document_topic_prob st' = document_topic_prob st \<Longrightarrow>
   topic_word_prob st' = topic_word_prob st \<Longrightarrow> topic_mass K st' = topic_mass K st"
  by (intro ext) (simp add: topic_mass_def)

lemma em_iteration_likelihood:
  assumes "em_iteration K st = Inr st'"
  shows "likelihoods st' = likelihoods st @
           [\<Sum>d<number_of_documents st'. \<Sum>w<vocabulary_size st'.
                term_doc_matrix st' ! d ! w * log 2 (topic_mass K st' d w)]"
    and "\<forall>d<number_of_documents st'. \<forall>w<vocabulary_size st'. 0 < topic_mass K st' d w"
proof -
  from assms obtain st1 st2 where 1: "expectation_step st = Inr st1"
    and 2: "maximization_step K st1 = Inr st2" and 3: "calculate_likelihood K st2 = Inr st'"
    by (auto simp: em_iteration_def split: sum.splits)
  let ?l = "\<Sum>d<number_of_documents st2. \<Sum>w<vocabulary_size st2.
                term_doc_matrix st2 ! d ! w * log 2 (topic_mass K st2 d w)"
  from 3 have pos: "\<not> (\<exists>d<number_of_documents st2. \<exists>w<vocabulary_size st2.
      topic_mass K st2 d w \<le> 0)"
    unfolding calculate_likelihood_closed by (auto split: if_splits)
  with 3 have st': "st' = st2\<lparr>likelihoods := likelihoods st2 @ [?l]\<rparr>"
    unfolding calculate_likelihood_closed by (simp split: if_splits)
  have m: "topic_mass K st' = topic_mass K st2"
    by (rule topic_mass_cong) (simp_all add: st')
  have "likelihoods st2 = likelihoods st"
    by (subst maximization_step_frame[OF 2], subst expectation_step_frame[OF 1]) simp
  then show "likelihoods st' = likelihoods st @
           [\<Sum>d<number_of_documents st'. \<Sum>w<vocabulary_size st'.
                term_doc_matrix st' ! d ! w * log 2 (topic_mass K st' d w)]"
    unfolding m by (simp add: st')
  show "\<forall>d<number_of_documents st'. \<forall>w<vocabulary_size st'. 0 < topic_mass K st' d w"
    unfolding m using pos by (auto simp: st' not_le)
qed

lemma em_run_trace:
  fixes its :: "nat list"
  assumes "forM its (\<lambda>i. em_iteration K) st = Inr st'"
  shows "\<exists>new. likelihoods st' = likelihoods st @ new \<and> length new = length its \<and>
           (\<forall>j<length its. \<exists>s. forM (take (Suc j) its) (\<lambda>i. em_iteration K) st = Inr s \<and>
              new ! j = (\<Sum>d<number_of_documents s. \<Sum>w<vocabulary_size s.
                           term_doc_matrix s ! d ! w * log 2 (topic_mass K s d w)))"
  using assms
proof (induction its arbitrary: st)
  case Nil
  then show ?case by simp
next
  case (Cons i its)
  let ?f = "\<lambda>s. \<Sum>d<number_of_documents s. \<Sum>w<vocabulary_size s.
                           term_doc_matrix s ! d ! w * log 2 (topic_mass K s d w)"
  from Cons.prems obtain st1 where 1: "em_iteration K st = Inr st1"
    and rest: "forM its (\<lambda>i. em_iteration K) st1 = Inr st'"
    by (auto split: sum.splits)
  have l1: "likelihoods st1 = likelihoods st @ [?f st1]"
    by (rule em_iteration_likelihood(1)[OF 1])
  from Cons.IH[OF rest] obtain new where
    n1: "likelihoods st' = likelihoods st1 @ new" and n2: "length new = length its"
    and n3: "\<forall>j<length its. \<exists>s. forM (take (Suc j) its) (\<lambda>i. em_iteration K) st1 = Inr s \<and>
              new ! j = ?f s"
    by blast
  have "likelihoods st' = likelihoods st @ (?f st1 # new) \<and>
        length (?f st1 # new) = length (i # its) \<and>
        (\<forall>j<length (i # its). \<exists>s.
            forM (take (Suc j) (i # its)) (\<lambda>i. em_iteration K) st = Inr s \<and>
            (?f st1 # new) ! j = ?f s)"
  proof (intro conjI allI impI)
    show "likelihoods st' = likelihoods st @ ?f st1 # new" using n1 l1 by simp
    show "length (?f st1 # new) = length (i # its)" using n2 by simp
    fix j assume j: "j < length (i # its)"
    show "\<exists>s. forM (take (Suc j) (i # its)) (\<lambda>i. em_iteration K) st = Inr s \<and>
            (?f st1 # new) ! j = ?f s"
    proof (cases j)
      case 0
      then have "forM (take (Suc j) (i # its)) (\<lambda>i. em_iteration K) st = Inr st1 \<and>
            (?f st1 # new) ! j = ?f st1"
        using 1 by simp
      then show ?thesis by blast
    next
      case (Suc j')
      with j have "j' < length its" by simp
      with n3 obtain s where "forM (take (Suc j') its) (\<lambda>i. em_iteration K) st1 = Inr s"
        "new ! j' = ?f s" by blast
      with Suc 1 have "forM (take (Suc j) (i # its)) (\<lambda>i. em_iteration K) st = Inr s \<and>
            (?f st1 # new) ! j = ?f s"
        by simp
      then show ?thesis by blast
    qed
  qed
  then show ?case by blast
qed

lemma em_loop_is_run:
  assumes "em_loop K eps its st = Inr st'"
  shows "\<exists>m. m \<le> length its \<and> (its \<noteq> [] \<longrightarrow> 0 < m) \<and>
           forM (take m its) (\<lambda>i. em_iteration K) st = Inr st'"
  using assms
proof (induction its arbitrary: st)
  case Nil
  then show ?case by simp
next
  case (Cons i its)
  from Cons.prems obtain st1 where 1: "em_iteration K st = Inr st1"
    by (auto split: sum.splits)
  show ?case
  proof (cases "i \<ge> 1 \<and> \<bar>likelihoods st1 ! i - likelihoods st1 ! (i - 1)\<bar> < eps")
    case True
    with Cons.prems 1 have "st' = st1" by simp
    with 1 have "Suc 0 \<le> length (i # its) \<and> (i # its \<noteq> [] \<longrightarrow> 0 < Suc 0) \<and>
        forM (take (Suc 0) (i # its)) (\<lambda>i. em_iteration K) st = Inr st'"
      by simp
    then show ?thesis by blast
  next
    case False
    with Cons.prems 1 have "em_loop K eps its st1 = Inr st'" by auto
    from Cons.IH[OF this] obtain m where "m \<le> length its"
      "forM (take m its) (\<lambda>i. em_iteration K) st1 = Inr st'" by blast
    with 1 have "Suc m \<le> length (i # its) \<and> (i # its \<noteq> [] \<longrightarrow> 0 < Suc m) \<and>
        forM (take (Suc m) (i # its)) (\<lambda>i. em_iteration K) st = Inr st'"
      by simp
    then show ?thesis by blast
  qed
qed

lemma em_loop_run_trace:
  assumes "em_loop K eps its st = Inr st'"
  shows "\<exists>m new. m \<le> length its \<and> (its \<noteq> [] \<longrightarrow> 0 < m) \<and>
           forM (take m its) (\<lambda>i. em_iteration K) st = Inr st' \<and>
           likelihoods st' = likelihoods st @ new \<and> length new = m"
proof -
  from em_loop_is_run[OF assms] obtain m where m: "m \<le> length its" "its \<noteq> [] \<longrightarrow> 0 < m"
    and run: "forM (take m its) (\<lambda>i. em_iteration K) st = Inr st'" by blast
  from em_run_trace[OF run] obtain new where
    "likelihoods st' = likelihoods st @ new" "length new = length (take m its)" by blast
  with m run show ?thesis by (intro exI[of _ m] exI[of _ new]) simp
qed

text \<open>
  C8. On tables of the right shapes the likelihood computation appends exactly one
  number to the trace: the sum over the documents \<open>d\<close> and terms \<open>w\<close> of
  \<open>C[d][w] * log2 (s d w)\<close>, where \<open>s\<close> is the topic mass under the current tables;
  it fails instead (ValueError of \<open>math.log\<close>) when some mass is not positive. A completed iteration therefore extends the trace by
  the likelihood of the tables its M-step produced. A run of iterations that all
  complete extends the trace by one element for each of them, the \<open>j\<close>-th new
  element being the likelihood of the tables after the \<open>j\<close>-th of them, and keeps
  what the trace held before. The loop of \<open>plsa\<close>, when it returns, has run such a
  number \<open>m\<close> of iterations, at least one if its budget is not empty, and returns
  their state: the trace has grown by exactly \<open>m\<close> elements.
\<close>

theorem calculate_likelihood_appends_log2_sum:
  fixes its :: "nat list"
  assumes "tables_ok K st"
  shows "calculate_likelihood K st =
     (if \<exists>d<number_of_documents st. \<exists>w<vocabulary_size st. topic_mass K st d w \<le> 0
      then Inl ValueError
      else Inr (st\<lparr>likelihoods := likelihoods st @
             [\<Sum>d<number_of_documents st. \<Sum>w<vocabulary_size st.
                term_doc_matrix st ! d ! w * log 2 (topic_mass K st d w)]\<rparr>)) \<and>
    (\<forall>st'. em_iteration K st = Inr st' \<longrightarrow>
       likelihoods st' = likelihoods st @
           [\<Sum>d<number_of_documents st'. \<Sum>w<vocabulary_size st'.
                term_doc_matrix st' ! d ! w * log 2 (topic_mass K st' d w)]) \<and>
    (\<forall>st'. forM its (\<lambda>i. em_iteration K) st = Inr st' \<longrightarrow>
       (\<exists>new. likelihoods st' = likelihoods st @ new \<and> length new = length its \<and>
          (\<forall>j<length its. \<exists>s. forM (take (Suc j) its) (\<lambda>i. em_iteration K) st = Inr s \<and>
              new ! j = (\<Sum>d<number_of_documents s. \<Sum>w<vocabulary_size s.
                           term_doc_matrix s ! d ! w * log 2 (topic_mass K s d w))))) \<and>
    (\<forall>st' eps. em_loop K eps its st = Inr st' \<longrightarrow>
       (\<exists>m new. m \<le> length its \<and> (its \<noteq> [] \<longrightarrow> 0 < m) \<and>
          forM (take m its) (\<lambda>i. em_iteration K) st = Inr st' \<and>
          likelihoods st' = likelihoods st @ new \<and> length new = m))"
proof (intro conjI allI impI)
  show "calculate_likelihood K st =
     (if \<exists>d<number_of_documents st. \<exists>w<vocabulary_size st. topic_mass K st d w \<le> 0
      then Inl ValueError
      else Inr (st\<lparr>likelihoods := likelihoods st @
             [\<Sum>d<number_of_documents st. \<Sum>w<vocabulary_size st.
                term_doc_matrix st ! d ! w * log 2 (topic_mass K st d w)]\<rparr>))"
    by (rule calculate_likelihood_closed)
next
  fix st' assume "em_iteration K st = Inr st'"
  then show "likelihoods st' = likelihoods st @
           [\<Sum>d<number_of_documents st'. \<Sum>w<vocabulary_size st'.
                term_doc_matrix st' ! d ! w * log 2 (topic_mass K st' d w)]"
    by (rule em_iteration_likelihood(1))
next
  fix st' assume "forM its (\<lambda>i. em_iteration K) st = Inr st'"
  then show "\<exists>new. likelihoods st' = likelihoods st @ new \<and> length new = length its \<and>
          (\<forall>j<length its. \<exists>s. forM (take (Suc j) its) (\<lambda>i. em_iteration K) st = Inr s \<and>
              new ! j = (\<Sum>d<number_of_documents s. \<Sum>w<vocabulary_size s.
                           term_doc_matrix s ! d ! w * log 2 (topic_mass K s d w)))"
    by (rule em_run_trace)
next
  fix st' eps assume "em_loop K eps its st = Inr st'"
  then show "\<exists>m new. m \<le> length its \<and> (its \<noteq> [] \<longrightarrow> 0 < m) \<and>
          forM (take m its) (\<lambda>i. em_iteration K) st = Inr st' \<and>
          likelihoods st' = likelihoods st @ new \<and> length new = m"
    by (rule em_loop_run_trace)
qed

lemma single_example_ok: "tables_ok 1 single_example"
  by code_simp

lemma single_example_fields:
  "number_of_documents single_example = 1" "vocabulary_size single_example = 1"
  "term_doc_matrix single_example = [[1]]" "likelihoods single_example = []"
  "document_topic_prob single_example = [[1]]" "topic_word_prob single_example = [[1]]"
  by code_simp+

lemma single_example_mass: "topic_mass (Suc 0) single_example 0 0 = 1"
proof -
  have "topic_mass 1 single_example 0 0 = 1" by code_simp
  then show ?thesis by simp
qed

lemma single_expectation_step:
  "expectation_step single_example = Inr (single_fitted [])"
  "expectation_step (single_fitted [0]) = Inr (single_fitted [0])"
  by code_simp+

lemma single_maximization_step:
  "maximization_step 1 (single_fitted []) = Inr (single_fitted [])"
  "maximization_step 1 (single_fitted [0]) = Inr (single_fitted [0])"
  by code_simp+

lemma single_fitted_fields:
  "number_of_documents (single_fitted L) = 1" "vocabulary_size (single_fitted L) = 1"
  "term_doc_matrix (single_fitted L) = [[1]]" "likelihoods (single_fitted L) = L"
  "document_topic_prob (single_fitted L) = [[1]]" "topic_word_prob (single_fitted L) = [[1]]"
  by (simp_all add: single_fitted_def single_example_fields)

lemma single_calculate_likelihood:
  "calculate_likelihood 1 (single_fitted L) = Inr (single_fitted (L @ [0]))"
proof -
  have "topic_mass (Suc 0) (single_fitted L) 0 0 = 1"
    by (simp add: topic_mass_def single_fitted_fields)
  then show ?thesis
    unfolding calculate_likelihood_closed
    by (simp add: single_fitted_fields) (simp add: single_fitted_def)
qed

lemma single_em_iteration:
  "em_iteration 1 single_example = Inr (single_fitted [0])"
  "em_iteration 1 (single_fitted [0]) = Inr (single_fitted [0, 0])"
  by (simp_all add: em_iteration_def single_expectation_step single_maximization_step
      single_calculate_likelihood del: One_nat_def)

lemma weighted_example_ok: "tables_ok 2 weighted_example"
  by code_simp

lemma weighted_example_fields:
  "number_of_documents weighted_example = 2" "vocabulary_size weighted_example = 2"
  "term_doc_matrix weighted_example = [[3, 1], [0, 2]]" "likelihoods weighted_example = [7]"
  by code_simp+

lemma weighted_example_mass:
  "topic_mass 2 weighted_example 0 0 = 1 / 2" "topic_mass 2 weighted_example 0 (Suc 0) = 1 / 2"
  "topic_mass 2 weighted_example (Suc 0) 0 = 3 / 4"
  "topic_mass 2 weighted_example (Suc 0) (Suc 0) = 1 / 4"
proof -
  have "topic_mass 2 weighted_example 0 0 = 1 / 2" "topic_mass 2 weighted_example 0 1 = 1 / 2"
    "topic_mass 2 weighted_example 1 0 = 3 / 4" "topic_mass 2 weighted_example 1 1 = 1 / 4"
    by code_simp+
  then show "topic_mass 2 weighted_example 0 0 = 1 / 2"
    "topic_mass 2 weighted_example 0 (Suc 0) = 1 / 2"
    "topic_mass 2 weighted_example (Suc 0) 0 = 3 / 4"
    "topic_mass 2 weighted_example (Suc 0) (Suc 0) = 1 / 4"
    by simp_all
qed

lemma log2_half: "log 2 (1 / 2) = - 1"
  by (simp add: log_divide)

lemma log2_quarter: "log 2 (1 / 4) = - 2"
proof -
  have "log 2 4 = log 2 (2 ^ 2)" by simp
  also have "\<dots> = 2" by (simp only: log_pow_cancel)
  finally show ?thesis by (simp add: log_divide)
qed

lemma sum_less_two: "(\<Sum>i<2. f i) = f 0 + f (Suc 0)" for f :: "nat \<Rightarrow> real"
  by (simp add: numeral_2_eq_2 lessThan_Suc)

lemma weighted_calculate_likelihood:
  "calculate_likelihood 2 weighted_example = Inr (weighted_example\<lparr>likelihoods := [7, - 8]\<rparr>)"
proof -
  have "0 < topic_mass 2 weighted_example d w" if "d < 2" "w < 2" for d w
  proof -
    from that have "d = 0 \<or> d = Suc 0" "w = 0 \<or> w = Suc 0" by auto
    then show ?thesis by (auto simp: weighted_example_mass)
  qed
  then have pos: "\<not> (\<exists>d<number_of_documents weighted_example.
      \<exists>w<vocabulary_size weighted_example. topic_mass 2 weighted_example d w \<le> 0)"
    by (auto simp: weighted_example_fields not_le)
  have "(\<Sum>d<number_of_documents weighted_example. \<Sum>w<vocabulary_size weighted_example.
           term_doc_matrix weighted_example ! d ! w * log 2 (topic_mass 2 weighted_example d w))
        = - 8"
    by (simp add: weighted_example_fields weighted_example_mass sum_less_two
        log2_half log2_quarter)
  then show ?thesis
    unfolding calculate_likelihood_closed if_not_P[OF pos]
    by (simp add: weighted_example_fields)
qed

theorem calculate_likelihood_appends_log2_sum_witness:
  "tables_ok 2 weighted_example \<and>
   term_doc_matrix weighted_example = [[3, 1], [0, 2]] \<and>
   likelihoods weighted_example = [7] \<and>
   calculate_likelihood 2 weighted_example = Inr (weighted_example\<lparr>likelihoods := [7, - 8]\<rparr>) \<and>
   em_loop 1 1000 [0, 1, 2] single_example = Inr (single_fitted [0, 0]) \<and>
   forM (take 2 [0, 1, 2 :: nat]) (\<lambda>i. em_iteration 1) single_example =
     Inr (single_fitted [0, 0])"
proof -
  note t = calculate_likelihood_appends_log2_sum[OF weighted_example_ok, of "[]"]
  have pos: "\<not> (\<exists>d<number_of_documents weighted_example.
      \<exists>w<vocabulary_size weighted_example. topic_mass 2 weighted_example d w \<le> 0)"
    using weighted_calculate_likelihood unfolding calculate_likelihood_closed
    by (auto split: if_splits)
  from t have "calculate_likelihood 2 weighted_example =
     (if \<exists>d<number_of_documents weighted_example. \<exists>w<vocabulary_size weighted_example.
           topic_mass 2 weighted_example d w \<le> 0
      then Inl ValueError
      else Inr (weighted_example\<lparr>likelihoods := likelihoods weighted_example @
             [\<Sum>d<number_of_documents weighted_example. \<Sum>w<vocabulary_size weighted_example.
                term_doc_matrix weighted_example ! d ! w *
                log 2 (topic_mass 2 weighted_example d w)]\<rparr>))"
    by (rule conjunct1)
  then have a: "calculate_likelihood 2 weighted_example =
      Inr (weighted_example\<lparr>likelihoods := [7, - 8]\<rparr>)"
    using weighted_calculate_likelihood by simp
  have b: "em_loop 1 1000 [0, 1, 2] single_example = Inr (single_fitted [0, 0])"
    by (simp add: single_em_iteration single_fitted_fields del: One_nat_def)
  have c: "forM (take 2 [0, 1, 2 :: nat]) (\<lambda>i. em_iteration 1) single_example =
     Inr (single_fitted [0, 0])"
    by (simp add: single_em_iteration numeral_2_eq_2 del: One_nat_def)
  from a b c weighted_example_ok weighted_example_fields(3,4) show ?thesis by blast
qed

section \<open>The fitting loop\<close>

lemma em_loop_step:
  assumes "i < n" and "em_iteration K st = Inr st1"
  shows "em_loop K eps [i..<n] st =
         (if converged_at eps (likelihoods st1) i then Inr st1
          else em_loop K eps [Suc i..<n] st1)"
  using assms by (simp add: upt_conv_Cons converged_at_def)

lemma em_loop_step_error:
  assumes "i < n" and "em_iteration K st = Inl e"
  shows "em_loop K eps [i..<n] st = Inl e"
  using assms by (simp add: upt_conv_Cons)

lemma converged_at_append:
  "j < length L \<Longrightarrow> converged_at eps (L @ new) j = converged_at eps L j"
  by (auto simp: converged_at_def nth_append)

lemma em_loop_upt_trace:
  assumes "em_loop K eps [i..<n] st = Inr st'" and "i \<le> length (likelihoods st)"
  shows "\<exists>new. likelihoods st' = likelihoods st @ new \<and> length new \<le> n - i \<and>
           (i < n \<longrightarrow> new \<noteq> []) \<and>
           (\<forall>j. i \<le> j \<and> j + 1 < i + length new \<longrightarrow> \<not> converged_at eps (likelihoods st') j) \<and>
           (i + length new < n \<longrightarrow> converged_at eps (likelihoods st') (i + length new - 1))"
  using assms
proof (induction "n - i" arbitrary: i st)
  case 0
  then have "[i..<n] = []" by simp
  with "0.prems" have "st' = st" by simp
  then have "likelihoods st' = likelihoods st @ [] \<and> length ([]::real list) \<le> n - i \<and>
           (i < n \<longrightarrow> ([]::real list) \<noteq> []) \<and>
           (\<forall>j. i \<le> j \<and> j + 1 < i + length ([]::real list) \<longrightarrow>
                \<not> converged_at eps (likelihoods st') j) \<and>
           (i + length ([]::real list) < n \<longrightarrow>
                converged_at eps (likelihoods st') (i + length ([]::real list) - 1))"
    using 0 by auto
  then show ?case by blast
next
  case (Suc k)
  then have lt: "i < n" by simp
  from Suc.prems(1) lt obtain st1 where 1: "em_iteration K st = Inr st1"
    by (cases "em_iteration K st") (simp_all add: em_loop_step_error)
  from em_iteration_frame(6)[OF 1] obtain l where l: "likelihoods st1 = likelihoods st @ [l]"
    by blast
  with Suc.prems(2) have len1: "Suc i \<le> length (likelihoods st1)" by simp
  show ?case
  proof (cases "converged_at eps (likelihoods st1) i")
    case True
    with Suc.prems(1) have st': "st' = st1" by (simp add: em_loop_step[OF lt 1])
    have "likelihoods st' = likelihoods st @ [l] \<and> length [l] \<le> n - i \<and>
           (i < n \<longrightarrow> [l] \<noteq> []) \<and>
           (\<forall>j. i \<le> j \<and> j + 1 < i + length [l] \<longrightarrow> \<not> converged_at eps (likelihoods st') j) \<and>
           (i + length [l] < n \<longrightarrow> converged_at eps (likelihoods st') (i + length [l] - 1))"
      using True lt l st' by auto
    then show ?thesis by blast
  next
    case False
    with Suc.prems(1) have rest: "em_loop K eps [Suc i..<n] st1 = Inr st'"
      by (simp add: em_loop_step[OF lt 1])
    from Suc.hyps(2) have k: "k = n - Suc i" by simp
    from Suc.hyps(1)[OF k rest len1] obtain new where
      n1: "likelihoods st' = likelihoods st1 @ new" and n2: "length new \<le> n - Suc i"
      and n4: "\<forall>j. Suc i \<le> j \<and> j + 1 < Suc i + length new \<longrightarrow>
                 \<not> converged_at eps (likelihoods st') j"
      and n5: "Suc i + length new < n \<longrightarrow>
                 converged_at eps (likelihoods st') (Suc i + length new - 1)"
      by blast
    have first: "\<not> converged_at eps (likelihoods st') i"
      using False converged_at_append[of i "likelihoods st1" eps new] len1 n1 by simp
    have "likelihoods st' = likelihoods st @ (l # new) \<and> length (l # new) \<le> n - i \<and>
           (i < n \<longrightarrow> l # new \<noteq> []) \<and>
           (\<forall>j. i \<le> j \<and> j + 1 < i + length (l # new) \<longrightarrow>
                \<not> converged_at eps (likelihoods st') j) \<and>
           (i + length (l # new) < n \<longrightarrow>
                converged_at eps (likelihoods st') (i + length (l # new) - 1))"
    proof (intro conjI allI impI)
      show "likelihoods st' = likelihoods st @ l # new" using n1 l by simp
      show "length (l # new) \<le> n - i" using n2 lt by simp
      show "l # new \<noteq> []" by simp
    next
      fix j assume j: "i \<le> j \<and> j + 1 < i + length (l # new)"
      show "\<not> converged_at eps (likelihoods st') j"
      proof (cases "j = i")
        case True
        with first show ?thesis by simp
      next
        case False
        with j have "Suc i \<le> j \<and> j + 1 < Suc i + length new" by simp
        with n4 show ?thesis by blast
      qed
    next
      assume "i + length (l # new) < n"
      then have "Suc i + length new < n" by simp
      with n5 show "converged_at eps (likelihoods st') (i + length (l # new) - 1)" by simp
    qed
    then show ?thesis by blast
  qed
qed

lemma em_loop_two_iterations:
  assumes "em_iteration K st = Inr st1" and "em_iteration K st1 = Inr st2"
    and "2 \<le> n" and "\<bar>likelihoods st2 ! 1 - likelihoods st2 ! 0\<bar> < eps"
  shows "em_loop K eps [0..<n] st = Inr st2"
proof -
  from assms(3) have n: "0 < n" "Suc 0 < n" by simp_all
  have "\<not> converged_at eps (likelihoods st1) 0" by (simp add: converged_at_def)
  then have "em_loop K eps [0..<n] st = em_loop K eps [Suc 0..<n] st1"
    by (simp add: em_loop_step[OF n(1) assms(1)])
  moreover have "converged_at eps (likelihoods st2) (Suc 0)"
    using assms(4) by (simp add: converged_at_def)
  then have "em_loop K eps [Suc 0..<n] st1 = Inr st2"
    by (simp add: em_loop_step[OF n(2) assms(2)])
  ultimately show ?thesis by simp
qed

lemma em_loop_budget_one:
  assumes "em_iteration K st = Inr st1"
  shows "em_loop K eps [0..<1] st = Inr st1"
  using assms by simp

lemma single_initialize:
  "initialize_randomly (\<lambda>i j. 1 / 2) (\<lambda>i j. 1 / 2) (nat 1)
     ((build_term_doc_matrix single_corpus)\<lparr>topic_prob :=
         np_zeros3 (number_of_documents (build_term_doc_matrix single_corpus)) (nat 1)
           (vocabulary_size (build_term_doc_matrix single_corpus))\<rparr>) =
   Inr single_example"
  by code_simp

lemma single_fitted_ok: "tables_ok (Suc 0) (single_fitted L)"
  by (simp add: tables_ok_def has_shape_def single_fitted_fields)

lemma single_fitted_expectation_step:
  "expectation_step (single_fitted L) = Inr (single_fitted L)"
proof -
  have "topic_mass (Suc 0) (single_fitted L) 0 0 = 1"
    by (simp add: topic_mass_def single_fitted_fields)
  then show ?thesis
    unfolding expectation_step_closed[OF single_fitted_ok]
    by (simp add: single_fitted_fields) (simp add: single_fitted_def)
qed

lemma single_fitted_maximization_step:
  "maximization_step (Suc 0) (single_fitted L) = Inr (single_fitted L)"
proof -
  have Z: "topic_prob (single_fitted L) = [[[1]]]" by (simp add: single_fitted_def)
  have n: "normalize [[1]] = Inr [[1]]" by code_simp
  show ?thesis
    unfolding maximization_step_closed[OF single_fitted_ok]
    by (simp add: single_fitted_fields Z n)
qed

lemma single_fitted_em_iteration:
  "em_iteration 1 (single_fitted L) = Inr (single_fitted (L @ [0]))"
  using single_calculate_likelihood[of L]
  by (simp add: em_iteration_def single_fitted_expectation_step single_fitted_maximization_step)

text \<open>
  C6, as the program has it. The loop over \<open>range(max_iter)\<close> tests, after each
  completed iteration \<open>i\<close> from the second on (\<open>i \<ge> 1\<close>), whether
  \<open>|L[i] - L[i-1]| < epsilon\<close>, where \<open>L\<close> is the whole trace of the corpus indexed by
  the loop counter, and stops at the first iteration where this holds. A run that
  returned after \<open>m\<close> iterations met no test that held before its last iteration,
  and if \<open>m\<close> is below the budget the test held at the last iteration; \<open>m\<close> is at
  least 2 when the budget is. When the first two iterations complete and positions
  1 and 0 of the trace then differ by less than \<open>epsilon\<close>, a budget of at least 2
  gives exactly these 2 iterations. On a trace that is empty when the loop starts,
  as on a fresh corpus, these two positions hold the likelihoods of the first two
  iterations; \<open>plsa\<close> does not empty the trace, so on a corpus fitted before they
  hold older values. A budget of 1 gives exactly 1 iteration whatever \<open>epsilon\<close> is.
\<close>

theorem convergence_test_single_step_comparison:
  "(\<forall>st'. em_loop K eps [0..<n] st = Inr st' \<longrightarrow>
      (\<exists>new. likelihoods st' = likelihoods st @ new \<and>
         length new \<le> n \<and> min n 2 \<le> length new \<and>
         (\<forall>j. j + 1 < length new \<longrightarrow> \<not> converged_at eps (likelihoods st') j) \<and>
         (length new < n \<longrightarrow> converged_at eps (likelihoods st') (length new - 1)))) \<and>
   (\<forall>st1 st2. em_iteration K st = Inr st1 \<and> em_iteration K st1 = Inr st2 \<and> 2 \<le> n \<and>
        \<bar>likelihoods st2 ! 1 - likelihoods st2 ! 0\<bar> < eps \<longrightarrow>
        em_loop K eps [0..<n] st = Inr st2 \<and>
        length (likelihoods st2) = length (likelihoods st) + 2) \<and>
   (likelihoods st = [] \<longrightarrow>
      (\<forall>st1 st2. em_iteration K st = Inr st1 \<and> em_iteration K st1 = Inr st2 \<longrightarrow>
         (\<exists>l0 l1. likelihoods st1 = [l0] \<and> likelihoods st2 = [l0, l1] \<and>
            (2 \<le> n \<and> \<bar>l1 - l0\<bar> < eps \<longrightarrow> em_loop K eps [0..<n] st = Inr st2)))) \<and>
   (\<forall>st1. em_iteration K st = Inr st1 \<longrightarrow>
        em_loop K eps [0..<1] st = Inr st1 \<and>
        length (likelihoods st1) = length (likelihoods st) + 1)"
proof (intro conjI allI impI)
  fix st' assume run: "em_loop K eps [0..<n] st = Inr st'"
  let ?L = "likelihoods st'"
  from em_loop_upt_trace[OF run] obtain new where
    new: "?L = likelihoods st @ new" "length new \<le> n" "0 < n \<longrightarrow> new \<noteq> []"
    and before: "\<forall>j. j + 1 < length new \<longrightarrow> \<not> converged_at eps ?L j"
    and last: "length new < n \<longrightarrow> converged_at eps ?L (length new - 1)"
    by auto
  have "min n 2 \<le> length new"
  proof (cases "length new < n")
    case True
    with last have "1 \<le> length new - 1" by (simp add: converged_at_def)
    then show ?thesis by simp
  next
    case False
    with new show ?thesis by simp
  qed
  with new before last
  show "\<exists>new. likelihoods st' = likelihoods st @ new \<and>
         length new \<le> n \<and> min n 2 \<le> length new \<and>
         (\<forall>j. j + 1 < length new \<longrightarrow> \<not> converged_at eps (likelihoods st') j) \<and>
         (length new < n \<longrightarrow> converged_at eps (likelihoods st') (length new - 1))"
    by blast
next
  fix st1 st2
  assume a: "em_iteration K st = Inr st1 \<and> em_iteration K st1 = Inr st2 \<and> 2 \<le> n \<and>
              \<bar>likelihoods st2 ! 1 - likelihoods st2 ! 0\<bar> < eps"
  then show "em_loop K eps [0..<n] st = Inr st2"
    using em_loop_two_iterations[of K st st1 st2 n eps] by blast
  from a em_iteration_frame(6)[of K st st1] em_iteration_frame(6)[of K st1 st2]
  show "length (likelihoods st2) = length (likelihoods st) + 2" by auto
next
  fix st1 st2
  assume e: "likelihoods st = []"
    and a: "em_iteration K st = Inr st1 \<and> em_iteration K st1 = Inr st2"
  from a em_iteration_frame(6)[of K st st1] e obtain l0 where l0: "likelihoods st1 = [l0]"
    by auto
  from a em_iteration_frame(6)[of K st1 st2] l0 obtain l1 where l1: "likelihoods st2 = [l0, l1]"
    by auto
  have "em_loop K eps [0..<n] st = Inr st2" if "2 \<le> n \<and> \<bar>l1 - l0\<bar> < eps"
    using em_loop_two_iterations[of K st st1 st2 n eps] a that l1 by simp
  with l0 l1 show "\<exists>l0 l1. likelihoods st1 = [l0] \<and> likelihoods st2 = [l0, l1] \<and>
            (2 \<le> n \<and> \<bar>l1 - l0\<bar> < eps \<longrightarrow> em_loop K eps [0..<n] st = Inr st2)"
    by blast
next
  fix st1 assume a: "em_iteration K st = Inr st1"
  then show "em_loop K eps [0..<1] st = Inr st1" by (rule em_loop_budget_one)
  from a em_iteration_frame(6)[of K st st1]
  show "length (likelihoods st1) = length (likelihoods st) + 1" by auto
qed

lemma single_stale_trace_run:
  "em_loop 1 1 [0..<50] (single_fitted [5]) = Inr (single_fitted [5, 0, 0, 0])"
proof -
  have 0: "\<not> converged_at 1 (likelihoods (single_fitted [5, 0])) 0"
    and 1: "\<not> converged_at 1 (likelihoods (single_fitted [5, 0, 0])) (Suc 0)"
    and 2: "converged_at 1 (likelihoods (single_fitted [5, 0, 0, 0])) (Suc (Suc 0))"
    by (simp_all add: converged_at_def single_fitted_fields)
  have "em_loop 1 1 [0..<50] (single_fitted [5]) =
        em_loop 1 1 [Suc 0..<50] (single_fitted [5, 0])"
    using em_loop_step[of 0 50 1 "single_fitted [5]" "single_fitted [5, 0]" 1]
      single_fitted_em_iteration[of "[5]"] 0 by simp
  also have "\<dots> = em_loop 1 1 [Suc (Suc 0)..<50] (single_fitted [5, 0, 0])"
    using em_loop_step[of "Suc 0" 50 1 "single_fitted [5, 0]" "single_fitted [5, 0, 0]" 1]
      single_fitted_em_iteration[of "[5, 0]"] 1 by simp
  also have "\<dots> = Inr (single_fitted [5, 0, 0, 0])"
    using em_loop_step[of "Suc (Suc 0)" 50 1 "single_fitted [5, 0, 0]"
        "single_fitted [5, 0, 0, 0]" 1]
      single_fitted_em_iteration[of "[5, 0, 0]"] 2 by simp
  finally show ?thesis .
qed

theorem convergence_test_single_step_comparison_witness:
  "likelihoods single_example = [] \<and>
   em_iteration 1 single_example = Inr (single_fitted [0]) \<and>
   em_iteration 1 (single_fitted [0]) = Inr (single_fitted [0, 0]) \<and>
   em_loop 1 1000 [0..<50] single_example = Inr (single_fitted [0, 0]) \<and>
   length (likelihoods (single_fitted [0, 0])) = 2 \<and>
   em_loop 1 1 [0..<50] (single_fitted [5]) = Inr (single_fitted [5, 0, 0, 0])"
proof -
  have "\<bar>likelihoods (single_fitted [0, 0]) ! 1 - likelihoods (single_fitted [0, 0]) ! 0\<bar>
        < (1000 :: real)"
    by (simp add: single_fitted_fields)
  then have pre: "em_iteration 1 single_example = Inr (single_fitted [0]) \<and>
      em_iteration 1 (single_fitted [0]) = Inr (single_fitted [0, 0]) \<and> (2::nat) \<le> 50 \<and>
      \<bar>likelihoods (single_fitted [0, 0]) ! 1 - likelihoods (single_fitted [0, 0]) ! 0\<bar>
        < (1000 :: real)"
    using single_em_iteration by simp
  from convergence_test_single_step_comparison[of 1 1000 50 single_example]
  have "\<forall>st1 st2. em_iteration 1 single_example = Inr st1 \<and> em_iteration 1 st1 = Inr st2 \<and>
            (2::nat) \<le> 50 \<and> \<bar>likelihoods st2 ! 1 - likelihoods st2 ! 0\<bar> < 1000 \<longrightarrow>
            em_loop 1 1000 [0..<50] single_example = Inr st2 \<and>
            length (likelihoods st2) = length (likelihoods single_example) + 2"
    by (rule conjunct2[THEN conjunct1])
  with pre have "em_loop 1 1000 [0..<50] single_example = Inr (single_fitted [0, 0])"
    by blast
  with pre single_example_fields(4) single_stale_trace_run show ?thesis
    by (simp add: single_fitted_fields)
qed

text \<open>
  With a budget of one iteration the run ends after one iteration, however large
  \<open>epsilon\<close> is: here through \<open>plsa\<close> itself, with \<open>epsilon\<close> a thousand.
\<close>

theorem one_iteration_budget_counterexample:
  "plsa (\<lambda>i j. 1 / 2) (\<lambda>i j. 1 / 2) 1 1 1000 single_corpus = Inr (single_fitted [0]) \<and>
   length (likelihoods (single_fitted [0])) = 1 \<and>
   plsa (\<lambda>i j. 1 / 2) (\<lambda>i j. 1 / 2) 1 50 1000 single_corpus = Inr (single_fitted [0, 0]) \<and>
   length (likelihoods (single_fitted [0, 0])) = 2"
proof -
  have one: "em_loop (nat 1) 1000 [0..<nat 1] single_example = Inr (single_fitted [0])"
    using em_loop_budget_one[OF single_em_iteration(1), of 1000] by simp
  have "\<bar>likelihoods (single_fitted [0, 0]) ! 1 - likelihoods (single_fitted [0, 0]) ! 0\<bar>
        < (1000 :: real)"
    by (simp add: single_fitted_fields)
  then have "em_loop 1 1000 [0..<nat 50] single_example = Inr (single_fitted [0, 0])"
    by (intro em_loop_two_iterations[OF single_em_iteration]) simp_all
  then have two: "em_loop (nat 1) 1000 [0..<nat 50] single_example = Inr (single_fitted [0, 0])"
    by simp
  have u: "plsa (\<lambda>i j. 1 / 2) (\<lambda>i j. 1 / 2) 1 max_iter 1000 single_corpus =
      (case Inr single_example of Inl e \<Rightarrow> Inl e
       | Inr st3 \<Rightarrow> em_loop (nat 1) 1000 [0..<nat max_iter] st3)" for max_iter
    by (rule plsa_unfold[OF _ single_initialize]) simp
  have "plsa (\<lambda>i j. 1 / 2) (\<lambda>i j. 1 / 2) 1 1 1000 single_corpus = Inr (single_fitted [0])"
    unfolding u by (simp only: sum.case one)
  moreover
  have "plsa (\<lambda>i j. 1 / 2) (\<lambda>i j. 1 / 2) 1 50 1000 single_corpus = Inr (single_fitted [0, 0])"
    unfolding u by (simp only: sum.case two)
  ultimately show ?thesis by (simp add: single_fitted_fields)
qed

section \<open>The arguments of plsa\<close>

lemma build_term_doc_matrix_frame:
  "number_of_documents (build_term_doc_matrix st) = number_of_documents st"
  "vocabulary_size (build_term_doc_matrix st) = vocabulary_size st"
  "vocabulary (build_term_doc_matrix st) = vocabulary st"
  "documents (build_term_doc_matrix st) = documents st"
  "likelihoods (build_term_doc_matrix st) = likelihoods st"
  by (simp_all add: build_term_doc_matrix_def Let_def)

lemma em_loop_negative_epsilon:
  "eps < 0 \<Longrightarrow> em_loop K eps its st = forM its (\<lambda>i. em_iteration K) st"
proof (induction its arbitrary: st)
  case Nil
  then show ?case by simp
next
  case (Cons i its)
  have "\<not> \<bar>x\<bar> < eps" for x :: real using Cons.prems by simp
  with Cons show ?case by (simp split: sum.splits)
qed

lemma normalize_no_columns:
  "0 < r \<Longrightarrow> normalize (random_sample draw r 0) = Inl RowSumZero"
  by (intro normalize_Inl) (auto simp: random_sample_def)

lemma plsa_zero_topics:
  assumes "0 < number_of_documents st"
  shows "plsa draw1 draw2 0 max_iter eps st = Inl RowSumZero"
  using assms
  by (simp add: plsa_def Let_def initialize_def initialize_randomly_def
      build_term_doc_matrix_frame normalize_no_columns)

text \<open>
  C3, as the program has it. \<open>plsa\<close> checks none of its arguments. A negative topic
  count fails with numpy's ValueError when the posterior is allocated, a step after
  the count matrix has been built. With a topic count of zero and at least one
  document the normalization of the initial tables raises. With a non-positive
  iteration budget the matrix is built, the tables are initialised, no iteration
  runs and the call returns what the initialisation gave. With a negative
  \<open>epsilon\<close> the loop runs as if it had no convergence test.
\<close>

theorem plsa_checks_no_argument:
  "(number_of_topics < 0 \<longrightarrow>
      plsa draw1 draw2 number_of_topics max_iter eps st = Inl ValueError) \<and>
   (0 < number_of_documents st \<longrightarrow> plsa draw1 draw2 0 max_iter eps st = Inl RowSumZero) \<and>
   (0 \<le> number_of_topics \<and> max_iter \<le> 0 \<longrightarrow>
      plsa draw1 draw2 number_of_topics max_iter eps st =
        initialize_randomly draw1 draw2 (nat number_of_topics)
          ((build_term_doc_matrix st)\<lparr>topic_prob :=
             np_zeros3 (number_of_documents st) (nat number_of_topics) (vocabulary_size st)\<rparr>)) \<and>
   (eps < 0 \<longrightarrow> em_loop K eps its st = forM its (\<lambda>i. em_iteration K) st)"
proof (intro conjI impI)
  assume "number_of_topics < 0"
  then show "plsa draw1 draw2 number_of_topics max_iter eps st = Inl ValueError"
    by (simp add: plsa_def Let_def)
next
  assume "0 < number_of_documents st"
  then show "plsa draw1 draw2 0 max_iter eps st = Inl RowSumZero" by (rule plsa_zero_topics)
next
  assume a: "0 \<le> number_of_topics \<and> max_iter \<le> 0"
  then have "[0..<nat max_iter] = []" by simp
  with a show "plsa draw1 draw2 number_of_topics max_iter eps st =
        initialize_randomly draw1 draw2 (nat number_of_topics)
          ((build_term_doc_matrix st)\<lparr>topic_prob :=
             np_zeros3 (number_of_documents st) (nat number_of_topics) (vocabulary_size st)\<rparr>)"
    by (simp add: plsa_def Let_def initialize_def build_term_doc_matrix_frame split: sum.splits)
next
  assume "eps < 0"
  then show "em_loop K eps its st = forM its (\<lambda>i. em_iteration K) st"
    by (rule em_loop_negative_epsilon)
qed

lemma single_initialize_plain:
  "initialize_randomly (\<lambda>i j. 1 / 2) (\<lambda>i j. 1 / 2) (nat 1)
     ((build_term_doc_matrix single_corpus)\<lparr>topic_prob :=
         np_zeros3 (number_of_documents single_corpus) (nat 1)
           (vocabulary_size single_corpus)\<rparr>) =
   Inr single_example"
  by code_simp

lemma single_corpus_documents: "0 < number_of_documents single_corpus"
  by code_simp

theorem plsa_checks_no_argument_witness:
  "plsa (\<lambda>i j. 1 / 2) (\<lambda>i j. 1 / 2) (- 1) 50 (1 / 1000) single_corpus = Inl ValueError \<and>
   plsa (\<lambda>i j. 1 / 2) (\<lambda>i j. 1 / 2) 0 50 (1 / 1000) single_corpus = Inl RowSumZero \<and>
   plsa (\<lambda>i j. 1 / 2) (\<lambda>i j. 1 / 2) 1 0 (1 / 1000) single_corpus = Inr single_example \<and>
   em_loop 1 (- 1) [0, 1] single_example = Inr (single_fitted [0, 0])"
proof -
  have neg: "(- 1 :: real) < 0" by simp
  have "em_loop 1 (- 1) [0, 1] single_example =
        forM [0, 1 :: nat] (\<lambda>i. em_iteration 1) single_example"
    by (rule plsa_checks_no_argument[of 0 "\<lambda>i j. 0" "\<lambda>i j. 0" 0 "- 1" single_example 1
          "[0, 1]", THEN conjunct2, THEN conjunct2, THEN conjunct2, THEN mp, OF neg])
  then have 4: "em_loop 1 (- 1) [0, 1] single_example = Inr (single_fitted [0, 0])"
    by (simp add: single_em_iteration del: One_nat_def)
  have 1: "plsa (\<lambda>i j. 1 / 2) (\<lambda>i j. 1 / 2) (- 1) 50 (1 / 1000) single_corpus = Inl ValueError"
    using plsa_checks_no_argument[of "- 1" "\<lambda>i j. 1 / 2" "\<lambda>i j. 1 / 2" 50 "1 / 1000"
        single_corpus 0 "[]"] by simp
  have 2: "plsa (\<lambda>i j. 1 / 2) (\<lambda>i j. 1 / 2) 0 50 (1 / 1000) single_corpus = Inl RowSumZero"
    using plsa_checks_no_argument[of 0 "\<lambda>i j. 1 / 2" "\<lambda>i j. 1 / 2" 50 "1 / 1000"
        single_corpus 0 "[]"] single_corpus_documents by simp
  have 3: "plsa (\<lambda>i j. 1 / 2) (\<lambda>i j. 1 / 2) 1 0 (1 / 1000) single_corpus = Inr single_example"
    using plsa_checks_no_argument[of 1 "\<lambda>i j. 1 / 2" "\<lambda>i j. 1 / 2" 0 "1 / 1000"
        single_corpus 0 "[]"] single_initialize_plain by simp
  from 1 2 3 4 show ?thesis by blast
qed

text \<open>
  The claim fails on the program: a budget of zero iterations and a negative
  \<open>epsilon\<close> are accepted, and the calls return a state whose count matrix is built
  and whose tables are initialised.
\<close>

theorem invalid_arguments_accepted_counterexample:
  "plsa (\<lambda>i j. 1 / 2) (\<lambda>i j. 1 / 2) 1 0 (1 / 1000) single_corpus = Inr single_example \<and>
   term_doc_matrix single_example = [[1]] \<and>
   document_topic_prob single_example = [[1]] \<and>
   topic_word_prob single_example = [[1]] \<and>
   plsa (\<lambda>i j. 1 / 2) (\<lambda>i j. 1 / 2) 1 1 (- 1) single_corpus = Inr (single_fitted [0])"
proof -
  have u: "plsa (\<lambda>i j. 1 / 2) (\<lambda>i j. 1 / 2) 1 max_iter eps single_corpus =
      (case Inr single_example of Inl e \<Rightarrow> Inl e
       | Inr st3 \<Rightarrow> em_loop (nat 1) eps [0..<nat max_iter] st3)" for max_iter eps
    by (rule plsa_unfold[OF _ single_initialize]) simp
  have a: "plsa (\<lambda>i j. 1 / 2) (\<lambda>i j. 1 / 2) 1 0 (1 / 1000) single_corpus = Inr single_example"
    unfolding u by simp
  have "em_loop (nat 1) (- 1) [0..<nat 1] single_example = Inr (single_fitted [0])"
    using em_loop_budget_one[OF single_em_iteration(1), of "- 1"] by simp
  then have b: "plsa (\<lambda>i j. 1 / 2) (\<lambda>i j. 1 / 2) 1 1 (- 1) single_corpus =
      Inr (single_fitted [0])"
    unfolding u by (simp only: sum.case)
  from a b show ?thesis by (simp add: single_example_fields)
qed

section \<open>An empty document\<close>

lemma normalize_error: "normalize m = Inl e \<Longrightarrow> e = RowSumZero"
  by (simp add: normalize_def Let_def split: if_splits)

lemma empty_document_row:
  assumes "documents st ! d0 = []" and "d0 < number_of_documents st"
    and "w < vocabulary_size st"
  shows "term_doc_matrix (build_term_doc_matrix st) ! d0 ! w = 0"
  using build_term_doc_matrix_cells(2)[OF assms(2,3)] assms(1) by simp

lemma zero_row_update_document_topic:
  assumes "has_shape (number_of_documents s) K (document_topic_prob s)"
    and "d0 < number_of_documents s"
    and "\<forall>w<vocabulary_size s. term_doc_matrix s ! d0 ! w = 0"
  shows "update_document_topic s K ! d0 = replicate K 0"
    and "normalize (update_document_topic s K) = Inl RowSumZero"
proof -
  let ?m = "update_document_topic s K"
  have row: "?m ! d0 = map (\<lambda>k. 0) [0..<K]"
    unfolding update_document_topic_closed[OF assms(1)] using assms(2,3) by simp
  then have r: "?m ! d0 = replicate K 0" by (simp add: map_replicate_const)
  then show "?m ! d0 = replicate K 0" .
  have "length ?m = number_of_documents s"
    unfolding update_document_topic_closed[OF assms(1)] by simp
  with assms(2) have "?m ! d0 \<in> set ?m" by simp
  moreover have "sum_list (?m ! d0) = 0" by (simp add: r sum_list_replicate)
  ultimately show "normalize ?m = Inl RowSumZero" by (intro normalize_Inl) blast
qed

lemma zero_row_maximization_step:
  assumes "tables_ok K s" and "d0 < number_of_documents s"
    and "\<forall>w<vocabulary_size s. term_doc_matrix s ! d0 ! w = 0"
  shows "maximization_step K s = Inl RowSumZero"
proof (cases "normalize (update_topic_word s K)")
  case (Inl e)
  with normalize_error[OF Inl] show ?thesis by (simp add: maximization_step_def)
next
  case (Inr twp)
  have "normalize (update_document_topic (s\<lparr>topic_word_prob := twp\<rparr>) K) = Inl RowSumZero"
    by (rule zero_row_update_document_topic(2)[where ?d0.0 = d0])
       (use assms in \<open>simp_all add: tables_ok_def\<close>)
  with Inr show ?thesis by (simp add: maximization_step_def Let_def)
qed

lemma expectation_step_tables_ok:
  "expectation_step s = Inr s1 \<Longrightarrow> tables_ok K s \<Longrightarrow> tables_ok K s1"
  by (subst expectation_step_frame, assumption) (simp add: tables_ok_def)

lemma zero_row_em_iteration:
  assumes "tables_ok K s" and "d0 < number_of_documents s"
    and "\<forall>w<vocabulary_size s. term_doc_matrix s ! d0 ! w = 0"
  shows "em_iteration K s = Inl (SystemExit 0) \<or> em_iteration K s = Inl RowSumZero"
proof (cases "expectation_step s")
  case (Inl e)
  then have "e = SystemExit 0"
    unfolding expectation_step_closed[OF assms(1)] by (simp split: if_splits)
  with Inl show ?thesis by (simp add: em_iteration_def)
next
  case (Inr s1)
  note f = expectation_step_frame[OF Inr]
  have "maximization_step K s1 = Inl RowSumZero"
  proof (rule zero_row_maximization_step[where ?d0.0 = d0])
    show "tables_ok K s1" by (rule expectation_step_tables_ok[OF Inr assms(1)])
    show "d0 < number_of_documents s1" by (subst f) (simp add: assms(2))
    show "\<forall>w<vocabulary_size s1. term_doc_matrix s1 ! d0 ! w = 0"
      by (subst f, subst (2) f) (simp add: assms(3))
  qed
  with Inr show ?thesis by (simp add: em_iteration_def)
qed

lemma initialize_randomly_tables_ok:
  assumes "initialize_randomly draw1 draw2 K s = Inr s3"
    and "has_shape (number_of_documents s) (vocabulary_size s) (term_doc_matrix s)"
    and "vocabulary_size s = length (vocabulary s)"
  shows "tables_ok K s3" and "term_doc_matrix s3 = term_doc_matrix s"
    and "number_of_documents s3 = number_of_documents s"
    and "vocabulary_size s3 = vocabulary_size s"
proof -
  from assms(1) obtain dtp twp where
    dtp: "normalize (random_sample draw1 (number_of_documents s) K) = Inr dtp"
    and twp: "normalize (random_sample draw2 K (length (vocabulary s))) = Inr twp"
    and s3: "s3 = s\<lparr>document_topic_prob := dtp, topic_word_prob := twp\<rparr>"
    by (auto simp: initialize_randomly_def split: sum.splits)
  have "has_shape (number_of_documents s) K dtp"
    by (rule normalize_shape[OF dtp]) (simp add: random_sample_def has_shape_table)
  moreover have "has_shape K (vocabulary_size s) twp"
    unfolding assms(3)
    by (rule normalize_shape[OF twp]) (simp add: random_sample_def has_shape_table)
  ultimately show "tables_ok K s3" using assms(2) by (simp add: tables_ok_def s3)
  show "term_doc_matrix s3 = term_doc_matrix s" "number_of_documents s3 = number_of_documents s"
    "vocabulary_size s3 = vocabulary_size s"
    by (simp_all add: s3)
qed

lemma plsa_empty_document_fails:
  assumes "vocabulary_size st = length (vocabulary st)"
    and "d0 < number_of_documents st" and "documents st ! d0 = []"
    and "1 \<le> max_iter"
  shows "plsa draw1 draw2 number_of_topics max_iter eps st \<in>
           {Inl ValueError, Inl RowSumZero, Inl (SystemExit 0)}"
proof (cases "number_of_topics < 0")
  case True
  then show ?thesis by (simp add: plsa_def Let_def)
next
  case False
  let ?K = "nat number_of_topics"
  let ?s2 = "(build_term_doc_matrix st)\<lparr>topic_prob :=
               np_zeros3 (number_of_documents (build_term_doc_matrix st)) ?K
                 (vocabulary_size (build_term_doc_matrix st))\<rparr>"
  from False have K: "0 \<le> number_of_topics" by simp
  show ?thesis
  proof (cases "initialize_randomly draw1 draw2 ?K ?s2")
    case (Inl e)
    then have "e = RowSumZero"
      by (auto simp: initialize_randomly_def split: sum.splits dest: normalize_error)
    with Inl show ?thesis by (simp add: plsa_unfold[OF K Inl])
  next
    case (Inr s3)
    have ok: "tables_ok ?K s3" and C: "term_doc_matrix s3 = term_doc_matrix (build_term_doc_matrix st)"
      and D: "number_of_documents s3 = number_of_documents st"
      and V: "vocabulary_size s3 = vocabulary_size st"
      using initialize_randomly_tables_ok[OF Inr] build_term_doc_matrix_cells(1)[of st] assms(1)
      by (simp_all add: build_term_doc_matrix_frame)
    have "em_iteration ?K s3 = Inl (SystemExit 0) \<or> em_iteration ?K s3 = Inl RowSumZero"
      by (rule zero_row_em_iteration[OF ok, where ?d0.0 = d0])
         (use assms(2,3) in \<open>simp_all add: C D V empty_document_row\<close>)
    moreover from assms(4) have "0 < nat max_iter" by simp
    ultimately have "em_loop ?K eps [0..<nat max_iter] s3 = Inl (SystemExit 0) \<or>
        em_loop ?K eps [0..<nat max_iter] s3 = Inl RowSumZero"
      using em_loop_upt_first_error[of "nat max_iter" ?K s3 _ eps] by blast
    then show ?thesis by (auto simp: plsa_unfold[OF K Inr])
  qed
qed

subsection \<open>Strictly positive draws reach the second normalization\<close>

lemma normalize_positive:
  assumes "0 < c" and "\<And>a b. a < r \<Longrightarrow> b < c \<Longrightarrow> 0 < f a b"
  shows "\<exists>m'. normalize (map (\<lambda>a. map (f a) [0..<c]) [0..<r]) = Inr m' \<and> has_shape r c m' \<and>
              (\<forall>a<r. \<forall>b<c. 0 < m' ! a ! b)"
proof -
  let ?m = "map (\<lambda>a. map (f a) [0..<c]) [0..<r]"
  have pos: "0 < (\<Sum>b<c. f a b)" if "a < r" for a
    by (rule sum_pos) (use assms that in auto)
  have "\<forall>row\<in>set ?m. sum_list row \<noteq> 0"
  proof
    fix row assume "row \<in> set ?m"
    then obtain a where "a < r" "row = map (f a) [0..<c]" by auto
    with pos[of a] show "sum_list row \<noteq> 0" by (simp add: sum_list_table_row)
  qed
  then obtain m' where m': "normalize ?m = Inr m'" using normalize_Inr_iff[of ?m] by blast
  have "0 < m' ! a ! b" if "a < r" "b < c" for a b
    using normalize_table(4)[OF m' that] pos[OF that(1)] assms(2)[OF that] by simp
  with m' normalize_table(1)[OF m'] show ?thesis by blast
qed

lemma initialize_randomly_positive:
  assumes "0 < K" and "0 < length (vocabulary s)"
    and "\<And>i j. 0 < draw1 i j" and "\<And>i j. 0 < draw2 i j"
  shows "\<exists>s3. initialize_randomly draw1 draw2 K s = Inr s3 \<and>
           (\<forall>d<number_of_documents s. \<forall>k<K. 0 < document_topic_prob s3 ! d ! k) \<and>
           (\<forall>k<K. \<forall>w<length (vocabulary s). 0 < topic_word_prob s3 ! k ! w)"
proof -
  from normalize_positive[of K "number_of_documents s" draw1] assms(1,3)
  obtain dtp where dtp: "normalize (random_sample draw1 (number_of_documents s) K) = Inr dtp"
    "\<forall>d<number_of_documents s. \<forall>k<K. 0 < dtp ! d ! k"
    unfolding random_sample_def by blast
  from normalize_positive[of "length (vocabulary s)" K draw2] assms(2,4)
  obtain twp where twp: "normalize (random_sample draw2 K (length (vocabulary s))) = Inr twp"
    "\<forall>k<K. \<forall>w<length (vocabulary s). 0 < twp ! k ! w"
    unfolding random_sample_def by blast
  from dtp twp show ?thesis by (simp add: initialize_randomly_def)
qed

lemma topic_mass_positive:
  assumes "0 < K" and "\<forall>k<K. 0 < document_topic_prob s ! d ! k"
    and "\<forall>k<K. 0 < topic_word_prob s ! k ! w"
  shows "0 < topic_mass K s d w"
  unfolding topic_mass_def by (rule sum_pos) (use assms in auto)

lemma expectation_step_positive:
  assumes ok: "tables_ok K s" and K: "0 < K"
    and dtp: "\<forall>d<number_of_documents s. \<forall>k<K. 0 < document_topic_prob s ! d ! k"
    and twp: "\<forall>k<K. \<forall>w<vocabulary_size s. 0 < topic_word_prob s ! k ! w"
  shows "\<exists>s1. expectation_step s = Inr s1 \<and>
           (\<forall>d<number_of_documents s. \<forall>k<K. \<forall>w<vocabulary_size s. 0 < topic_prob s1 ! d ! k ! w)"
proof -
  have mass: "0 < topic_mass K s d w" if "d < number_of_documents s" "w < vocabulary_size s"
    for d w
    by (rule topic_mass_positive[OF K]) (use dtp twp that in auto)
  then have "\<not> (\<exists>d<number_of_documents s. \<exists>w<vocabulary_size s. topic_mass K s d w = 0)"
    by fastforce
  then have e: "expectation_step s = Inr (s\<lparr>topic_prob :=
             map (\<lambda>d. map (\<lambda>k. map (\<lambda>w.
                 document_topic_prob s ! d ! k * (topic_word_prob s ! k ! w) /
                 topic_mass K s d w)
               [0..<vocabulary_size s]) [0..<K]) [0..<number_of_documents s]\<rparr>)"
    unfolding expectation_step_closed[OF ok] by simp
  show ?thesis unfolding e using mass dtp twp by simp
qed

lemma update_topic_word_normalizes:
  assumes twp: "has_shape K (vocabulary_size s) (topic_word_prob s)"
    and C0: "\<forall>d<number_of_documents s. \<forall>w<vocabulary_size s. 0 \<le> term_doc_matrix s ! d ! w"
    and Z: "\<forall>d<number_of_documents s. \<forall>k<K. \<forall>w<vocabulary_size s. 0 < topic_prob s ! d ! k ! w"
    and d1: "d1 < number_of_documents s" and w1: "w1 < vocabulary_size s"
    and C1: "0 < term_doc_matrix s ! d1 ! w1"
  shows "\<exists>twp'. normalize (update_topic_word s K) = Inr twp'"
proof -
  let ?A = "\<lambda>k w. \<Sum>d<number_of_documents s. term_doc_matrix s ! d ! w * (topic_prob s ! d ! k ! w)"
  have nonneg: "0 \<le> ?A k w" if "k < K" "w < vocabulary_size s" for k w
  proof (rule sum_nonneg)
    fix d assume "d \<in> {..<number_of_documents s}"
    then have d: "d < number_of_documents s" by simp
    from C0 d that have "0 \<le> term_doc_matrix s ! d ! w" by blast
    moreover from Z d that have "0 \<le> topic_prob s ! d ! k ! w" by (simp add: less_imp_le)
    ultimately show "0 \<le> term_doc_matrix s ! d ! w * (topic_prob s ! d ! k ! w)"
      by (rule mult_nonneg_nonneg)
  qed
  have pos1: "0 < ?A k w1" if "k < K" for k
  proof (rule sum_pos2[where i = d1])
    show "0 < term_doc_matrix s ! d1 ! w1 * (topic_prob s ! d1 ! k ! w1)"
      using C1 Z d1 w1 that by simp
    show "0 \<le> term_doc_matrix s ! i ! w1 * (topic_prob s ! i ! k ! w1)"
      if "i \<in> {..<number_of_documents s}" for i
    proof -
      from that have i: "i < number_of_documents s" by simp
      from C0 i w1 have "0 \<le> term_doc_matrix s ! i ! w1" by blast
      moreover from Z i w1 \<open>k < K\<close> have "0 \<le> topic_prob s ! i ! k ! w1"
        by (simp add: less_imp_le)
      ultimately show ?thesis by (rule mult_nonneg_nonneg)
    qed
  qed (use d1 in auto)
  have row: "0 < (\<Sum>w<vocabulary_size s. ?A k w)" if "k < K" for k
    by (rule sum_pos2[where i = w1]) (use w1 pos1[OF that] nonneg[OF that] in auto)
  have "\<forall>row\<in>set (update_topic_word s K). sum_list row \<noteq> 0"
  proof
    fix r assume "r \<in> set (update_topic_word s K)"
    then obtain k where "k < K" "r = map (?A k) [0..<vocabulary_size s]"
      unfolding update_topic_word_closed[OF twp] by auto
    with row[of k] show "sum_list r \<noteq> 0" by (simp add: sum_list_table_row)
  qed
  then show ?thesis using normalize_Inr_iff[of "update_topic_word s K"] by blast
qed

lemma positive_draws_reach_second_normalization:
  assumes V: "vocabulary_size st = length (vocabulary st)"
    and K: "0 < number_of_topics"
    and draws: "\<And>i j. 0 < draw1 i j" "\<And>i j. 0 < draw2 i j"
    and d1: "d1 < number_of_documents st" and w1: "w1 < vocabulary_size st"
    and occ: "vocabulary st ! w1 \<in> set (documents st ! d1)"
  shows "\<exists>s3 s1 twp.
           initialize draw1 draw2 (nat number_of_topics) True
             ((build_term_doc_matrix st)\<lparr>topic_prob :=
                np_zeros3 (number_of_documents st) (nat number_of_topics) (vocabulary_size st)\<rparr>)
             = Inr s3 \<and>
           expectation_step s3 = Inr s1 \<and>
           normalize (update_topic_word s1 (nat number_of_topics)) = Inr twp \<and>
           tables_ok (nat number_of_topics) s1 \<and>
           term_doc_matrix s1 = term_doc_matrix (build_term_doc_matrix st) \<and>
           number_of_documents s1 = number_of_documents st \<and>
           vocabulary_size s1 = vocabulary_size st"
proof -
  let ?K = "nat number_of_topics"
  let ?s2 = "(build_term_doc_matrix st)\<lparr>topic_prob :=
                np_zeros3 (number_of_documents st) ?K (vocabulary_size st)\<rparr>"
  from K have K': "0 < ?K" by simp
  from w1 V have V': "0 < length (vocabulary ?s2)"
    by (auto simp: build_term_doc_matrix_frame)
  have "\<exists>s3. initialize_randomly draw1 draw2 ?K ?s2 = Inr s3 \<and>
           (\<forall>d<number_of_documents ?s2. \<forall>k<?K. 0 < document_topic_prob s3 ! d ! k) \<and>
           (\<forall>k<?K. \<forall>w<length (vocabulary ?s2). 0 < topic_word_prob s3 ! k ! w)"
    by (rule initialize_randomly_positive[OF K' V']) (rule draws)+
  then obtain s3 where
    s3: "initialize_randomly draw1 draw2 ?K ?s2 = Inr s3"
    and dtp: "\<forall>d<number_of_documents st. \<forall>k<?K. 0 < document_topic_prob s3 ! d ! k"
    and twp: "\<forall>k<?K. \<forall>w<vocabulary_size st. 0 < topic_word_prob s3 ! k ! w"
    by (auto simp: build_term_doc_matrix_frame V)
  have ok3: "tables_ok ?K s3" and C3: "term_doc_matrix s3 = term_doc_matrix (build_term_doc_matrix st)"
    and D3: "number_of_documents s3 = number_of_documents st"
    and V3: "vocabulary_size s3 = vocabulary_size st"
    using initialize_randomly_tables_ok[OF s3] build_term_doc_matrix_cells(1)[of st] V
    by (simp_all add: build_term_doc_matrix_frame)
  from expectation_step_positive[OF ok3 K'] dtp twp obtain s1 where
    s1: "expectation_step s3 = Inr s1"
    and Z: "\<forall>d<number_of_documents st. \<forall>k<?K. \<forall>w<vocabulary_size st. 0 < topic_prob s1 ! d ! k ! w"
    by (auto simp: D3 V3)
  note f = expectation_step_frame[OF s1]
  have ok1: "tables_ok ?K s1" by (rule expectation_step_tables_ok[OF s1 ok3])
  have C1: "term_doc_matrix s1 = term_doc_matrix (build_term_doc_matrix st)"
    by (subst f) (simp add: C3)
  have D1: "number_of_documents s1 = number_of_documents st" by (subst f) (simp add: D3)
  have V1: "vocabulary_size s1 = vocabulary_size st" by (subst f) (simp add: V3)
  have cells: "term_doc_matrix s1 ! d ! w = real (count_list (documents st ! d) (vocabulary st ! w))"
    if "d < number_of_documents st" "w < vocabulary_size st" for d w
    unfolding C1 by (rule build_term_doc_matrix_cells(2)[OF that])
  have "\<exists>twp'. normalize (update_topic_word s1 ?K) = Inr twp'"
  proof (rule update_topic_word_normalizes[where ?d1.0 = d1 and ?w1.0 = w1])
    show "has_shape ?K (vocabulary_size s1) (topic_word_prob s1)"
      using ok1 by (simp add: tables_ok_def)
    show "\<forall>d<number_of_documents s1. \<forall>w<vocabulary_size s1. 0 \<le> term_doc_matrix s1 ! d ! w"
      using cells by (simp add: D1 V1)
    show "\<forall>d<number_of_documents s1. \<forall>k<?K. \<forall>w<vocabulary_size s1. 0 < topic_prob s1 ! d ! k ! w"
      using Z by (simp add: D1 V1)
    show "d1 < number_of_documents s1" "w1 < vocabulary_size s1"
      using d1 w1 by (simp_all add: D1 V1)
    from occ have "count_list (documents st ! d1) (vocabulary st ! w1) \<noteq> 0"
      by (simp add: count_list_0_iff)
    then show "0 < term_doc_matrix s1 ! d1 ! w1"
      using cells[OF d1 w1] by simp
  qed
  then obtain twp' where "normalize (update_topic_word s1 ?K) = Inr twp'" by blast
  with s3 s1 ok1 C1 D1 V1 show ?thesis by (auto simp: initialize_def)
qed

text \<open>
  C10, as the program has it. Take a corpus, as \<open>build_corpus\<close> and
  \<open>build_vocabulary\<close> leave it, with an empty document \<open>d0\<close> and a document that
  contains a vocabulary term, and a budget of at least one iteration. Then \<open>plsa\<close>
  never returns a fitted model: it ends in the ValueError of a negative topic
  count, in the row-sum error or in the process exit of the E-step. In any state
  of the run that reaches the M-step, the re-estimated row of
  \<open>document_topic_prob\<close> for the empty document is all zero, whatever the first
  half of the M-step produced, and its normalization raises. With at least one
  topic and strictly positive random draws the run does reach that point in its
  first iteration: the initialization, the E-step and the normalization of
  \<open>topic_word_prob\<close> succeed, and the normalization of \<open>document_topic_prob\<close> raises.
\<close>

theorem empty_document_fails_first_iteration:
  assumes "number_of_documents st = length (documents st)"
    and "vocabulary_size st = length (vocabulary st)"
    and "d0 < length (documents st)" and "documents st ! d0 = []"
    and "d1 < length (documents st)" and "w1 < length (vocabulary st)"
    and "vocabulary st ! w1 \<in> set (documents st ! d1)"
    and "1 \<le> max_iter"
  shows "plsa draw1 draw2 number_of_topics max_iter eps st \<in>
           {Inl ValueError, Inl RowSumZero, Inl (SystemExit 0)} \<and>
         (\<forall>s K. tables_ok K s \<and> number_of_documents s = number_of_documents st \<and>
                vocabulary_size s = vocabulary_size st \<and>
                term_doc_matrix s = term_doc_matrix (build_term_doc_matrix st) \<longrightarrow>
            update_document_topic s K ! d0 = replicate K 0 \<and>
            normalize (update_document_topic s K) = Inl RowSumZero \<and>
            maximization_step K s = Inl RowSumZero) \<and>
         (0 < number_of_topics \<and> (\<forall>i j. 0 < draw1 i j) \<and> (\<forall>i j. 0 < draw2 i j) \<longrightarrow>
            (\<exists>s3 s1 twp.
               initialize draw1 draw2 (nat number_of_topics) True
                 ((build_term_doc_matrix st)\<lparr>topic_prob :=
                    np_zeros3 (number_of_documents st) (nat number_of_topics)
                      (vocabulary_size st)\<rparr>) = Inr s3 \<and>
               expectation_step s3 = Inr s1 \<and>
               normalize (update_topic_word s1 (nat number_of_topics)) = Inr twp \<and>
               update_document_topic (s1\<lparr>topic_word_prob := twp\<rparr>) (nat number_of_topics) ! d0 =
                 replicate (nat number_of_topics) 0 \<and>
               normalize (update_document_topic (s1\<lparr>topic_word_prob := twp\<rparr>)
                 (nat number_of_topics)) = Inl RowSumZero \<and>
               em_iteration (nat number_of_topics) s3 = Inl RowSumZero \<and>
               plsa draw1 draw2 number_of_topics max_iter eps st = Inl RowSumZero))"
proof (intro conjI allI impI)
  from assms have d0: "d0 < number_of_documents st" by simp
  show "plsa draw1 draw2 number_of_topics max_iter eps st \<in>
           {Inl ValueError, Inl RowSumZero, Inl (SystemExit 0)}"
    by (rule plsa_empty_document_fails[OF assms(2) d0 assms(4,8)])
next
  fix s K
  assume a: "tables_ok K s \<and> number_of_documents s = number_of_documents st \<and>
                vocabulary_size s = vocabulary_size st \<and>
                term_doc_matrix s = term_doc_matrix (build_term_doc_matrix st)"
  from a have ok: "tables_ok K s" and D: "number_of_documents s = number_of_documents st"
    and V: "vocabulary_size s = vocabulary_size st"
    and C: "term_doc_matrix s = term_doc_matrix (build_term_doc_matrix st)"
    by blast+
  from assms have d0: "d0 < number_of_documents s" using D by simp
  have zero: "\<forall>w<vocabulary_size s. term_doc_matrix s ! d0 ! w = 0"
    using d0 assms(4) by (simp add: C D V empty_document_row)
  from ok have dtp: "has_shape (number_of_documents s) K (document_topic_prob s)"
    by (simp add: tables_ok_def)
  show "update_document_topic s K ! d0 = replicate K 0"
    by (rule zero_row_update_document_topic(1)[OF dtp d0 zero])
  show "normalize (update_document_topic s K) = Inl RowSumZero"
    by (rule zero_row_update_document_topic(2)[OF dtp d0 zero])
  show "maximization_step K s = Inl RowSumZero"
    by (rule zero_row_maximization_step[OF ok d0 zero])
next
  let ?K = "nat number_of_topics"
  assume p: "0 < number_of_topics \<and> (\<forall>i j. 0 < draw1 i j) \<and> (\<forall>i j. 0 < draw2 i j)"
  from assms have d0: "d0 < number_of_documents st" and d1: "d1 < number_of_documents st"
    and w1: "w1 < vocabulary_size st" by simp_all
  have "\<exists>s3 s1 twp.
           initialize draw1 draw2 ?K True
             ((build_term_doc_matrix st)\<lparr>topic_prob :=
                np_zeros3 (number_of_documents st) ?K (vocabulary_size st)\<rparr>) = Inr s3 \<and>
           expectation_step s3 = Inr s1 \<and>
           normalize (update_topic_word s1 ?K) = Inr twp \<and>
           tables_ok ?K s1 \<and>
           term_doc_matrix s1 = term_doc_matrix (build_term_doc_matrix st) \<and>
           number_of_documents s1 = number_of_documents st \<and>
           vocabulary_size s1 = vocabulary_size st"
    by (rule positive_draws_reach_second_normalization[OF assms(2) _ _ _ d1 w1 assms(7)])
       (use p in simp_all)
  then obtain s3 s1 twp where
    s3: "initialize draw1 draw2 ?K True
             ((build_term_doc_matrix st)\<lparr>topic_prob :=
                np_zeros3 (number_of_documents st) ?K (vocabulary_size st)\<rparr>) = Inr s3"
    and s1: "expectation_step s3 = Inr s1"
    and twp: "normalize (update_topic_word s1 ?K) = Inr twp"
    and ok1: "tables_ok ?K s1"
    and C1: "term_doc_matrix s1 = term_doc_matrix (build_term_doc_matrix st)"
    and D1: "number_of_documents s1 = number_of_documents st"
    and V1: "vocabulary_size s1 = vocabulary_size st"
    by blast
  let ?s1' = "s1\<lparr>topic_word_prob := twp\<rparr>"
  have dtp: "has_shape (number_of_documents ?s1') ?K (document_topic_prob ?s1')"
    using ok1 by (simp add: tables_ok_def)
  have d0': "d0 < number_of_documents ?s1'" using d0 D1 by simp
  have zero: "\<forall>w<vocabulary_size ?s1'. term_doc_matrix ?s1' ! d0 ! w = 0"
    using d0 assms(4) by (simp add: C1 V1 empty_document_row)
  have row: "update_document_topic ?s1' ?K ! d0 = replicate ?K 0"
    by (rule zero_row_update_document_topic(1)[OF dtp d0' zero])
  have raise: "normalize (update_document_topic ?s1' ?K) = Inl RowSumZero"
    by (rule zero_row_update_document_topic(2)[OF dtp d0' zero])
  have "maximization_step ?K s1 = Inl RowSumZero"
    using twp raise by (simp add: maximization_step_def Let_def)
  with s1 have it: "em_iteration ?K s3 = Inl RowSumZero" by (simp add: em_iteration_def)
  from assms(8) have "0 < nat max_iter" by simp
  then have loop: "em_loop ?K eps [0..<nat max_iter] s3 = Inl RowSumZero"
    using it by (rule em_loop_upt_first_error)
  from p have K: "0 \<le> number_of_topics" by simp
  from s3 have "initialize_randomly draw1 draw2 ?K
           ((build_term_doc_matrix st)\<lparr>topic_prob :=
               np_zeros3 (number_of_documents (build_term_doc_matrix st)) ?K
                 (vocabulary_size (build_term_doc_matrix st))\<rparr>) = Inr s3"
    by (simp add: initialize_def build_term_doc_matrix_frame)
  from plsa_unfold[OF K this] loop
  have "plsa draw1 draw2 number_of_topics max_iter eps st = Inl RowSumZero" by simp
  with s3 s1 twp row raise it
  show "\<exists>s3 s1 twp.
               initialize draw1 draw2 ?K True
                 ((build_term_doc_matrix st)\<lparr>topic_prob :=
                    np_zeros3 (number_of_documents st) ?K (vocabulary_size st)\<rparr>) = Inr s3 \<and>
               expectation_step s3 = Inr s1 \<and>
               normalize (update_topic_word s1 ?K) = Inr twp \<and>
               update_document_topic (s1\<lparr>topic_word_prob := twp\<rparr>) ?K ! d0 = replicate ?K 0 \<and>
               normalize (update_document_topic (s1\<lparr>topic_word_prob := twp\<rparr>) ?K) =
                 Inl RowSumZero \<and>
               em_iteration ?K s3 = Inl RowSumZero \<and>
               plsa draw1 draw2 number_of_topics max_iter eps st = Inl RowSumZero"
    by blast
qed

lemma gap_corpus_fields:
  "documents gap_corpus = [[''a''], []]" "vocabulary gap_corpus = [''a'']"
  "number_of_documents gap_corpus = 2" "vocabulary_size gap_corpus = 1"
  by code_simp+

theorem empty_document_fails_first_iteration_witness:
  "documents gap_corpus ! 1 = [] \<and> documents gap_corpus ! 0 = [''a''] \<and>
   plsa (\<lambda>i j. 1 / 2) (\<lambda>i j. 1 / 2) 1 50 (1 / 1000) gap_corpus = Inl RowSumZero"
proof -
  have pos: "(0::int) < 1 \<and> (\<forall>i j :: nat. (0::real) < 1 / 2) \<and> (\<forall>i j :: nat. (0::real) < 1 / 2)"
    by simp
  have p: "number_of_documents gap_corpus = length (documents gap_corpus)"
    "vocabulary_size gap_corpus = length (vocabulary gap_corpus)"
    "1 < length (documents gap_corpus)" "documents gap_corpus ! 1 = []"
    "0 < length (documents gap_corpus)" "0 < length (vocabulary gap_corpus)"
    "vocabulary gap_corpus ! 0 \<in> set (documents gap_corpus ! 0)"
    "(1::int) \<le> 50"
    by (simp_all add: gap_corpus_fields)
  note t = empty_document_fails_first_iteration[where st = gap_corpus and ?d0.0 = 1
      and ?d1.0 = 0 and ?w1.0 = 0 and max_iter = 50 and number_of_topics = 1
      and ?draw1.0 = "\<lambda>i j. 1 / 2" and ?draw2.0 = "\<lambda>i j. 1 / 2" and eps = "1 / 1000",
      OF p]
  from t[THEN conjunct2, THEN conjunct2, THEN mp, OF pos]
  have "plsa (\<lambda>i j. 1 / 2) (\<lambda>i j. 1 / 2) 1 50 (1 / 1000) gap_corpus = Inl RowSumZero"
    by blast
  then show ?thesis by (simp add: gap_corpus_fields)
qed

text \<open>
  The claim as the specification words it, for every corpus with an empty document
  beside a non-empty one, fails on the program. With random draws that contain
  zeros the run on the documents "a b" and "" stops in the E-step of the first
  iteration, by the process exit, before any M-step. And with a budget of no
  iteration \<open>plsa\<close> on the documents "a" and "" returns normally, its trace empty.
\<close>

lemma split_corpus_fields:
  "documents split_corpus = [[''a'', ''b''], []]" "vocabulary split_corpus = [''a'', ''b'']"
  by code_simp+

lemma split_initialize:
  "initialize_randomly (\<lambda>i j. if j = 0 then 1 / 2 else 0) (\<lambda>i j. if i = j then 1 / 2 else 0)
     (nat 2)
     ((build_term_doc_matrix split_corpus)\<lparr>topic_prob :=
         np_zeros3 (number_of_documents (build_term_doc_matrix split_corpus)) (nat 2)
           (vocabulary_size (build_term_doc_matrix split_corpus))\<rparr>) =
   Inr split_example"
  by code_simp

lemma split_expectation_step:
  "expectation_step split_example = Inl (SystemExit 0)"
  by code_simp

lemma gap_initialize:
  "initialize_randomly (\<lambda>i j. 1 / 2) (\<lambda>i j. 1 / 2) (nat 1)
     ((build_term_doc_matrix gap_corpus)\<lparr>topic_prob :=
         np_zeros3 (number_of_documents (build_term_doc_matrix gap_corpus)) (nat 1)
           (vocabulary_size (build_term_doc_matrix gap_corpus))\<rparr>) =
   Inr gap_example"
  by code_simp

lemma gap_example_trace: "likelihoods gap_example = []"
  by code_simp

theorem empty_document_other_outcomes_counterexample:
  "documents split_corpus = [[''a'', ''b''], []] \<and>
   initialize (\<lambda>i j. if j = 0 then 1 / 2 else 0) (\<lambda>i j. if i = j then 1 / 2 else 0) 2 True
     ((build_term_doc_matrix split_corpus)\<lparr>topic_prob := np_zeros3 2 2 2\<rparr>) =
     Inr split_example \<and>
   expectation_step split_example = Inl (SystemExit 0) \<and>
   plsa (\<lambda>i j. if j = 0 then 1 / 2 else 0) (\<lambda>i j. if i = j then 1 / 2 else 0) 2 50 (1 / 1000)
     split_corpus = Inl (SystemExit 0) \<and>
   plsa (\<lambda>i j. if j = 0 then 1 / 2 else 0) (\<lambda>i j. if i = j then 1 / 2 else 0) 2 50 (1 / 1000)
     split_corpus \<noteq> Inl RowSumZero \<and>
   documents gap_corpus = [[''a''], []] \<and>
   plsa (\<lambda>i j. 1 / 2) (\<lambda>i j. 1 / 2) 1 0 (1 / 1000) gap_corpus = Inr gap_example \<and>
   likelihoods gap_example = []"
proof -
  have i: "initialize (\<lambda>i j. if j = 0 then 1 / 2 else 0) (\<lambda>i j. if i = j then 1 / 2 else 0) 2
      True ((build_term_doc_matrix split_corpus)\<lparr>topic_prob := np_zeros3 2 2 2\<rparr>) =
      Inr split_example"
    by code_simp
  have "em_loop (nat 2) (1 / 1000) [0..<nat 50] split_example = Inl (SystemExit 0)"
    by (rule em_loop_upt_first_error)
       (simp_all add: em_iteration_estep_error[OF split_expectation_step])
  then have a: "plsa (\<lambda>i j. if j = 0 then 1 / 2 else 0) (\<lambda>i j. if i = j then 1 / 2 else 0) 2 50
      (1 / 1000) split_corpus = Inl (SystemExit 0)"
    by (subst plsa_unfold[OF _ split_initialize]) simp_all
  have b: "plsa (\<lambda>i j. 1 / 2) (\<lambda>i j. 1 / 2) 1 0 (1 / 1000) gap_corpus = Inr gap_example"
    by (subst plsa_unfold[OF _ gap_initialize]) simp_all
  from i a b split_expectation_step gap_example_trace show ?thesis
    by (simp add: split_corpus_fields gap_corpus_fields)
qed

section \<open>Uniform tables\<close>

lemma counts_ok_iff:
  "counts_ok st \<longleftrightarrow>
     has_shape (number_of_documents st) (vocabulary_size st) (term_doc_matrix st) \<and>
     0 < vocabulary_size st \<and>
     (\<forall>d<number_of_documents st. \<forall>w<vocabulary_size st. 0 \<le> term_doc_matrix st ! d ! w) \<and>
     (\<forall>d<number_of_documents st. 0 < (\<Sum>w<vocabulary_size st. term_doc_matrix st ! d ! w)) \<and>
     (\<forall>w<vocabulary_size st. 0 < (\<Sum>d<number_of_documents st. term_doc_matrix st ! d ! w))"
  by (auto simp: counts_ok_def)

lemma replicate_as_map: "replicate n c = map (\<lambda>_. c) [0..<n]"
  by (simp add: map_replicate_const)

lemma normalize_table_closed:
  assumes "\<And>a. a < r \<Longrightarrow> (\<Sum>b<c. f a b) \<noteq> 0"
  shows "normalize (map (\<lambda>a. map (f a) [0..<c]) [0..<r]) =
         Inr (map (\<lambda>a. map (\<lambda>b. f a b / (\<Sum>b<c. f a b)) [0..<c]) [0..<r])"
proof -
  let ?m = "map (\<lambda>a. map (f a) [0..<c]) [0..<r]"
  have "\<forall>row\<in>set ?m. sum_list row \<noteq> 0"
    using assms by (auto simp: sum_list_table_row)
  then have "normalize ?m = Inr (map (\<lambda>row. map (\<lambda>x. x / sum_list row) row) ?m)"
    by (rule normalize_Inr)
  then show ?thesis by (simp add: comp_def sum_list_table_row)
qed

lemma uniform_mass:
  assumes "0 < K" and "d < number_of_documents s" and "w < vocabulary_size s"
    and "document_topic_prob s = replicate (number_of_documents s) (replicate K (1 / real K))"
    and "topic_word_prob s = replicate K (map p [0..<vocabulary_size s])"
  shows "topic_mass K s d w = p w"
  using assms by (simp add: topic_mass_def)

lemma equal_topics_tables_ok:
  assumes "has_shape (number_of_documents s) (vocabulary_size s) (term_doc_matrix s)"
    and "document_topic_prob s = replicate (number_of_documents s) (replicate K (1 / real K))"
    and "topic_word_prob s = replicate K (map p [0..<vocabulary_size s])"
  shows "tables_ok K s"
  using assms by (simp add: tables_ok_def has_shape_def list_all_length)

lemma equal_topics_expectation_step:
  assumes C: "has_shape (number_of_documents s) (vocabulary_size s) (term_doc_matrix s)"
    and K: "0 < K"
    and dtp: "document_topic_prob s =
                replicate (number_of_documents s) (replicate K (1 / real K))"
    and twp: "topic_word_prob s = replicate K (map p [0..<vocabulary_size s])"
    and p: "\<forall>w<vocabulary_size s. p w \<noteq> 0"
  shows "expectation_step s =
         Inr (s\<lparr>topic_prob := replicate (number_of_documents s)
                 (replicate K (replicate (vocabulary_size s) (1 / real K)))\<rparr>)"
proof -
  note ok = equal_topics_tables_ok[OF C dtp twp]
  have mass: "topic_mass K s d w = p w"
    if "d < number_of_documents s" "w < vocabulary_size s" for d w
    by (rule uniform_mass[OF K that dtp twp])
  with p have nz: "\<not> (\<exists>d<number_of_documents s. \<exists>w<vocabulary_size s. topic_mass K s d w = 0)"
    by auto
  have "map (\<lambda>d. map (\<lambda>k. map (\<lambda>w.
                 document_topic_prob s ! d ! k * (topic_word_prob s ! k ! w) /
                 topic_mass K s d w)
               [0..<vocabulary_size s]) [0..<K]) [0..<number_of_documents s] =
        map (\<lambda>d. map (\<lambda>k. map (\<lambda>w. 1 / real K)
               [0..<vocabulary_size s]) [0..<K]) [0..<number_of_documents s]"
    using p by (simp add: mass dtp twp)
  then show ?thesis
    unfolding expectation_step_closed[OF ok] using nz by (simp add: replicate_as_map)
qed

lemma total_positive:
  assumes "counts_ok s"
  shows "0 < (\<Sum>w'<vocabulary_size s. \<Sum>d<number_of_documents s. term_doc_matrix s ! d ! w')"
  by (rule sum_pos) (use assms in \<open>auto simp: counts_ok_iff\<close>)

lemma term_frequency_positive:
  assumes "counts_ok s" and "w < vocabulary_size s"
  shows "0 < term_frequency s w"
  unfolding term_frequency_def
  using total_positive[OF assms(1)] assms by (simp add: counts_ok_iff)

lemma equal_posterior_maximization_step:
  assumes ok: "tables_ok K s" and K: "0 < K" and C: "counts_ok s"
    and Z: "topic_prob s = replicate (number_of_documents s)
                 (replicate K (replicate (vocabulary_size s) (1 / real K)))"
  shows "maximization_step K s =
         Inr (s\<lparr>topic_word_prob := replicate K (map (term_frequency s) [0..<vocabulary_size s]),
               document_topic_prob :=
                 replicate (number_of_documents s) (replicate K (1 / real K))\<rparr>)"
proof -
  let ?D = "number_of_documents s" and ?V = "vocabulary_size s"
  let ?C = "term_doc_matrix s"
  let ?col = "\<lambda>w. \<Sum>d<?D. ?C ! d ! w" and ?row = "\<lambda>d. \<Sum>w<?V. ?C ! d ! w"
  let ?total = "\<Sum>w<?V. ?col w"
  from K have K': "real K \<noteq> 0" by simp
  have A: "map (\<lambda>k. map (\<lambda>w. \<Sum>d<?D. ?C ! d ! w * (topic_prob s ! d ! k ! w)) [0..<?V]) [0..<K] =
           map (\<lambda>k. map (\<lambda>w. ?col w / real K) [0..<?V]) [0..<K]"
    by (simp add: Z sum_divide_distrib)
  have B: "map (\<lambda>d. map (\<lambda>k. \<Sum>w<?V. ?C ! d ! w * (topic_prob s ! d ! k ! w)) [0..<K]) [0..<?D] =
           map (\<lambda>d. map (\<lambda>k. ?row d / real K) [0..<K]) [0..<?D]"
    by (simp add: Z sum_divide_distrib)
  have total: "0 < ?total" by (rule total_positive[OF C])
  have nA: "normalize (map (\<lambda>k. map (\<lambda>w. ?col w / real K) [0..<?V]) [0..<K]) =
        Inr (map (\<lambda>k. map (\<lambda>w. ?col w / real K / (\<Sum>w<?V. ?col w / real K)) [0..<?V]) [0..<K])"
    by (rule normalize_table_closed)
       (use total K in \<open>simp add: sum_divide_distrib[symmetric]\<close>)
  have fA: "?col w / real K / (\<Sum>w<?V. ?col w / real K) = term_frequency s w" for w
    using K' by (simp add: term_frequency_def sum_divide_distrib[symmetric])
  have rows: "?row d \<noteq> 0" if "d < ?D" for d
    using C that by (auto simp: counts_ok_iff)
  have nB: "normalize (map (\<lambda>d. map (\<lambda>k. ?row d / real K) [0..<K]) [0..<?D]) =
        Inr (map (\<lambda>d. map (\<lambda>k. ?row d / real K / (\<Sum>k<K. ?row d / real K)) [0..<K]) [0..<?D])"
    by (rule normalize_table_closed) (use rows K in simp)
  have fB: "?row d / real K / (\<Sum>k<K. ?row d / real K) = 1 / real K" if "d < ?D" for d
    using K' rows[OF that] by simp
  have nB': "map (\<lambda>d. map (\<lambda>k. ?row d / real K / (\<Sum>k<K. ?row d / real K)) [0..<K]) [0..<?D] =
             replicate ?D (replicate K (1 / real K))"
    unfolding replicate_as_map[of ?D] replicate_as_map[of K] using fB by simp
  have nA': "map (\<lambda>k. map (\<lambda>w. ?col w / real K / (\<Sum>w<?V. ?col w / real K)) [0..<?V]) [0..<K] =
             replicate K (map (term_frequency s) [0..<?V])"
    unfolding replicate_as_map[of K] fA by simp
  show ?thesis
    unfolding maximization_step_closed[OF ok] A B nA nB nA' nB' by simp
qed

lemma unigram_state_fields:
  "number_of_documents (unigram_state K st L) = number_of_documents st"
  "vocabulary_size (unigram_state K st L) = vocabulary_size st"
  "term_doc_matrix (unigram_state K st L) = term_doc_matrix st"
  "likelihoods (unigram_state K st L) = L"
  "document_topic_prob (unigram_state K st L) =
     replicate (number_of_documents st) (replicate K (1 / real K))"
  "topic_word_prob (unigram_state K st L) =
     replicate K (map (term_frequency st) [0..<vocabulary_size st])"
  by (simp_all add: unigram_state_def)

lemma term_frequency_cong:
  "number_of_documents s' = number_of_documents s \<Longrightarrow> vocabulary_size s' = vocabulary_size s \<Longrightarrow>
   term_doc_matrix s' = term_doc_matrix s \<Longrightarrow> term_frequency s' = term_frequency s"
  by (intro ext) (simp add: term_frequency_def)

lemma unigram_state_idem:
  "unigram_state K (unigram_state K st L) L' = unigram_state K st L'"
proof -
  have "term_frequency (unigram_state K st L) = term_frequency st"
    by (rule term_frequency_cong) (simp_all add: unigram_state_fields)
  then show ?thesis by (simp add: unigram_state_def)
qed

lemma counts_ok_cong:
  "number_of_documents s' = number_of_documents s \<Longrightarrow> vocabulary_size s' = vocabulary_size s \<Longrightarrow>
   term_doc_matrix s' = term_doc_matrix s \<Longrightarrow> counts_ok s' = counts_ok s"
  by (simp add: counts_ok_iff)

lemma equal_topics_em_iteration:
  assumes C: "counts_ok s" and K: "0 < K"
    and dtp: "document_topic_prob s =
                replicate (number_of_documents s) (replicate K (1 / real K))"
    and twp: "topic_word_prob s = replicate K (map p [0..<vocabulary_size s])"
    and p: "\<forall>w<vocabulary_size s. p w \<noteq> 0"
  shows "em_iteration K s =
         Inr (unigram_state K s (likelihoods s @ [unigram_likelihood s]))"
proof -
  let ?D = "number_of_documents s" and ?V = "vocabulary_size s"
  let ?Z = "replicate ?D (replicate K (replicate ?V (1 / real K)))"
  let ?s1 = "s\<lparr>topic_prob := ?Z\<rparr>"
  let ?s2 = "s\<lparr>topic_prob := ?Z,
               topic_word_prob := replicate K (map (term_frequency s) [0..<?V]),
               document_topic_prob := replicate ?D (replicate K (1 / real K))\<rparr>"
  from C have shape: "has_shape ?D ?V (term_doc_matrix s)" by (simp add: counts_ok_iff)
  have e: "expectation_step s = Inr ?s1"
    by (rule equal_topics_expectation_step[OF shape K dtp twp p])
  have ok1: "tables_ok K ?s1"
    using equal_topics_tables_ok[OF shape dtp twp] by (simp add: tables_ok_def)
  have C1: "counts_ok ?s1" using C by (simp add: counts_ok_iff)
  have tf: "term_frequency ?s1 = term_frequency s"
    by (rule term_frequency_cong) simp_all
  have m: "maximization_step K ?s1 = Inr ?s2"
    using equal_posterior_maximization_step[OF ok1 K C1] by (simp add: tf)
  have mass: "topic_mass K ?s2 d w = term_frequency s w" if "d < ?D" "w < ?V" for d w
    using uniform_mass[where K = K and s = ?s2 and d = d and w = w and p = "term_frequency s"]
      K that by simp
  have pos: "\<not> (\<exists>d<number_of_documents ?s2. \<exists>w<vocabulary_size ?s2. topic_mass K ?s2 d w \<le> 0)"
    using mass term_frequency_positive[OF C] by (auto simp: not_le)
  have sum_eq: "(\<Sum>d<number_of_documents ?s2. \<Sum>w<vocabulary_size ?s2.
                term_doc_matrix ?s2 ! d ! w * log 2 (topic_mass K ?s2 d w)) =
             unigram_likelihood s"
    unfolding unigram_likelihood_def
    by (intro sum.cong) (simp_all add: mass)
  have l: "calculate_likelihood K ?s2 =
           Inr (?s2\<lparr>likelihoods := likelihoods s @ [unigram_likelihood s]\<rparr>)"
    unfolding calculate_likelihood_closed if_not_P[OF pos] sum_eq by simp
  have "?s2\<lparr>likelihoods := likelihoods s @ [unigram_likelihood s]\<rparr> =
        unigram_state K s (likelihoods s @ [unigram_likelihood s])"
    by (simp add: unigram_state_def)
  with e m l show ?thesis by (simp add: em_iteration_def)
qed

lemma unigram_likelihood_cong:
  "number_of_documents s' = number_of_documents s \<Longrightarrow> vocabulary_size s' = vocabulary_size s \<Longrightarrow>
   term_doc_matrix s' = term_doc_matrix s \<Longrightarrow> unigram_likelihood s' = unigram_likelihood s"
  using term_frequency_cong[of s' s] by (simp add: unigram_likelihood_def)

lemma uniform_first_iteration:
  assumes C: "counts_ok st" and K: "0 < K" and u: "uniform_tables K st"
  shows "em_iteration K st = Inr (unigram_state K st (likelihoods st @ [unigram_likelihood st]))"
proof (rule equal_topics_em_iteration[OF C K, where p = "\<lambda>w. 1 / real (vocabulary_size st)"])
  show "document_topic_prob st = replicate (number_of_documents st) (replicate K (1 / real K))"
    using u by (simp add: uniform_tables_def)
  show "topic_word_prob st =
        replicate K (map (\<lambda>w. 1 / real (vocabulary_size st)) [0..<vocabulary_size st])"
    using u by (simp add: uniform_tables_def replicate_as_map[of "vocabulary_size st"])
  show "\<forall>w<vocabulary_size st. 1 / real (vocabulary_size st) \<noteq> 0"
    using C by (simp add: counts_ok_iff)
qed

lemma fixed_point_iteration:
  assumes C: "counts_ok st" and K: "0 < K"
  shows "em_iteration K (unigram_state K st L) =
         Inr (unigram_state K st (L @ [unigram_likelihood st]))"
proof -
  let ?s = "unigram_state K st L"
  have C': "counts_ok ?s"
    using C counts_ok_cong[of ?s st] by (simp add: unigram_state_fields)
  have "em_iteration K ?s = Inr (unigram_state K ?s (likelihoods ?s @ [unigram_likelihood ?s]))"
  proof (rule equal_topics_em_iteration[OF C' K, where p = "term_frequency st"])
    show "document_topic_prob ?s = replicate (number_of_documents ?s) (replicate K (1 / real K))"
      by (simp add: unigram_state_fields)
    show "topic_word_prob ?s = replicate K (map (term_frequency st) [0..<vocabulary_size ?s])"
      by (simp add: unigram_state_fields)
    show "\<forall>w<vocabulary_size ?s. term_frequency st w \<noteq> 0"
    proof (intro allI impI)
      fix w assume "w < vocabulary_size ?s"
      then have "0 < term_frequency st w"
        by (intro term_frequency_positive[OF C]) (simp add: unigram_state_fields)
      then show "term_frequency st w \<noteq> 0" by simp
    qed
  qed
  moreover have "unigram_likelihood ?s = unigram_likelihood st"
    by (rule unigram_likelihood_cong) (simp_all add: unigram_state_fields)
  ultimately show ?thesis by (simp add: unigram_state_idem unigram_state_fields)
qed

lemma em_loop_nonpositive_epsilon:
  "eps \<le> 0 \<Longrightarrow> em_loop K eps its st = forM its (\<lambda>i. em_iteration K) st"
proof (induction its arbitrary: st)
  case Nil
  then show ?case by simp
next
  case (Cons i its)
  have "\<not> \<bar>x\<bar> < eps" for x :: real using Cons.prems by simp
  with Cons show ?case by (simp split: sum.splits)
qed

lemma fixed_point_all_iterations:
  assumes C: "counts_ok st" and K: "0 < K"
  shows "forM its (\<lambda>i. em_iteration K) (unigram_state K st L) =
         Inr (unigram_state K st (L @ replicate (length its) (unigram_likelihood st)))"
proof (induction its arbitrary: L)
  case Nil
  then show ?case by simp
next
  case (Cons i its)
  have "L @ replicate (length (i # its)) (unigram_likelihood st) =
        (L @ [unigram_likelihood st]) @ replicate (length its) (unigram_likelihood st)"
    by simp
  with Cons[of "L @ [unigram_likelihood st]"] show ?case
    by (simp add: fixed_point_iteration[OF C K])
qed

lemma uniform_loop_nonpositive_epsilon:
  assumes C: "counts_ok st" and K: "0 < K" and u: "uniform_tables K st"
    and n: "0 < n" and eps: "eps \<le> 0"
  shows "em_loop K eps [0..<n] st =
         Inr (unigram_state K st (likelihoods st @ replicate n (unigram_likelihood st)))"
proof -
  from n have l: "[0..<n] = 0 # [Suc 0..<n]" by (simp add: upt_conv_Cons)
  have r: "(likelihoods st @ [unigram_likelihood st]) @
             replicate (length [Suc 0..<n]) (unigram_likelihood st) =
           likelihoods st @ replicate n (unigram_likelihood st)"
    using n by (cases n) simp_all
  have "em_loop K eps [0..<n] st = forM (0 # [Suc 0..<n]) (\<lambda>i. em_iteration K) st"
    unfolding l by (rule em_loop_nonpositive_epsilon[OF eps])
  also have "\<dots> = forM [Suc 0..<n] (\<lambda>i. em_iteration K)
                     (unigram_state K st (likelihoods st @ [unigram_likelihood st]))"
    by (simp add: uniform_first_iteration[OF C K u])
  also have "\<dots> = Inr (unigram_state K st (likelihoods st @ replicate n (unigram_likelihood st)))"
    unfolding fixed_point_all_iterations[OF C K] r ..
  finally show ?thesis .
qed

lemma uniform_loop_positive_epsilon:
  assumes C: "counts_ok st" and K: "0 < K" and u: "uniform_tables K st"
    and L: "likelihoods st = []" and n: "2 \<le> n" and eps: "0 < eps"
  shows "em_loop K eps [0..<n] st =
         Inr (unigram_state K st [unigram_likelihood st, unigram_likelihood st])"
proof (rule em_loop_two_iterations[OF _ _ n])
  show "em_iteration K st = Inr (unigram_state K st [unigram_likelihood st])"
    using uniform_first_iteration[OF C K u] L by simp
  show "em_iteration K (unigram_state K st [unigram_likelihood st]) =
        Inr (unigram_state K st [unigram_likelihood st, unigram_likelihood st])"
    using fixed_point_iteration[OF C K, of "[unigram_likelihood st]"] by simp
  show "\<bar>likelihoods (unigram_state K st [unigram_likelihood st, unigram_likelihood st]) ! 1 -
         likelihoods (unigram_state K st [unigram_likelihood st, unigram_likelihood st]) ! 0\<bar>
        < eps"
    using eps by (simp add: unigram_state_fields)
qed

text \<open>
  C2, as the program has it. Take a corpus in which no document is empty and every
  vocabulary term occurs, at least one topic, and the uniform tables. One E-step
  gives the posterior \<open>1 / K\<close> everywhere. The M-step that follows gives back the
  uniform \<open>document_topic_prob\<close>, but it sets every row of \<open>topic_word_prob\<close> to the
  term frequencies of the corpus, which are uniform only when every term occurs
  equally often. Over the reals these tables are a fixed point: an iteration
  started from them returns them and appends the same likelihood as the first
  iteration did. Hence, over the reals, a loop started on an empty trace with a
  budget of at least two iterations stops after the second for every
  \<open>epsilon > 0\<close>. For \<open>epsilon \<le> 0\<close> the strict comparison never holds and the whole
  budget is run, whatever the trace held at the start. Nothing is stated here about
  the rounding of the floating-point likelihoods, which is outside the model.
\<close>

theorem uniform_start_settles_on_term_frequencies:
  assumes "counts_ok st" and "0 < K" and "uniform_tables K st"
  shows "expectation_step st =
           Inr (st\<lparr>topic_prob := replicate (number_of_documents st)
                  (replicate K (replicate (vocabulary_size st) (1 / real K)))\<rparr>) \<and>
         maximization_step K
           (st\<lparr>topic_prob := replicate (number_of_documents st)
                  (replicate K (replicate (vocabulary_size st) (1 / real K)))\<rparr>) =
           Inr (st\<lparr>topic_prob := replicate (number_of_documents st)
                     (replicate K (replicate (vocabulary_size st) (1 / real K))),
                  topic_word_prob :=
                     replicate K (map (term_frequency st) [0..<vocabulary_size st]),
                  document_topic_prob :=
                     replicate (number_of_documents st) (replicate K (1 / real K))\<rparr>) \<and>
         em_iteration K st =
           Inr (unigram_state K st (likelihoods st @ [unigram_likelihood st])) \<and>
         (\<forall>L. em_iteration K (unigram_state K st L) =
               Inr (unigram_state K st (L @ [unigram_likelihood st]))) \<and>
         (likelihoods st = [] \<and> 2 \<le> n \<and> 0 < eps \<longrightarrow>
            em_loop K eps [0..<n] st =
              Inr (unigram_state K st [unigram_likelihood st, unigram_likelihood st])) \<and>
         (0 < n \<and> eps \<le> 0 \<longrightarrow>
            em_loop K eps [0..<n] st =
              Inr (unigram_state K st (likelihoods st @ replicate n (unigram_likelihood st))))"
proof (intro conjI allI impI)
  let ?Z = "replicate (number_of_documents st)
              (replicate K (replicate (vocabulary_size st) (1 / real K)))"
  from assms(1) have shape:
    "has_shape (number_of_documents st) (vocabulary_size st) (term_doc_matrix st)"
    and V: "0 < vocabulary_size st"
    by (simp_all add: counts_ok_iff)
  from assms(3) have dtp: "document_topic_prob st =
      replicate (number_of_documents st) (replicate K (1 / real K))"
    and twp: "topic_word_prob st = replicate K
      (map (\<lambda>w. 1 / real (vocabulary_size st)) [0..<vocabulary_size st])"
    by (simp_all add: uniform_tables_def replicate_as_map[of "vocabulary_size st"])
  show "expectation_step st = Inr (st\<lparr>topic_prob := ?Z\<rparr>)"
    by (rule equal_topics_expectation_step[OF shape assms(2) dtp twp]) (use V in simp)
  have ok1: "tables_ok K (st\<lparr>topic_prob := ?Z\<rparr>)"
    using equal_topics_tables_ok[OF shape dtp twp] by (simp add: tables_ok_def)
  have C1: "counts_ok (st\<lparr>topic_prob := ?Z\<rparr>)" using assms(1) by (simp add: counts_ok_iff)
  have tf: "term_frequency (st\<lparr>topic_prob := ?Z\<rparr>) = term_frequency st"
    by (rule term_frequency_cong) simp_all
  show "maximization_step K (st\<lparr>topic_prob := ?Z\<rparr>) =
           Inr (st\<lparr>topic_prob := ?Z,
                  topic_word_prob :=
                     replicate K (map (term_frequency st) [0..<vocabulary_size st]),
                  document_topic_prob :=
                     replicate (number_of_documents st) (replicate K (1 / real K))\<rparr>)"
    using equal_posterior_maximization_step[OF ok1 assms(2) C1] by (simp add: tf)
  show "em_iteration K st = Inr (unigram_state K st (likelihoods st @ [unigram_likelihood st]))"
    by (rule uniform_first_iteration[OF assms])
  show "em_iteration K (unigram_state K st L) =
        Inr (unigram_state K st (L @ [unigram_likelihood st]))" for L
    by (rule fixed_point_iteration[OF assms(1,2)])
next
  assume "likelihoods st = [] \<and> 2 \<le> n \<and> 0 < eps"
  then show "em_loop K eps [0..<n] st =
              Inr (unigram_state K st [unigram_likelihood st, unigram_likelihood st])"
    using uniform_loop_positive_epsilon[OF assms, of n eps] by blast
next
  assume "0 < n \<and> eps \<le> 0"
  then show "em_loop K eps [0..<n] st =
              Inr (unigram_state K st (likelihoods st @ replicate n (unigram_likelihood st)))"
    using uniform_loop_nonpositive_epsilon[OF assms, of n eps] by blast
qed

lemma example_uniform_fields:
  "number_of_documents example_uniform = 2" "vocabulary_size example_uniform = 4"
  "term_doc_matrix example_uniform = [[1, 1, 1, 0], [1, 0, 1, 1]]"
  "likelihoods example_uniform = []"
  "document_topic_prob example_uniform = [[1 / 2, 1 / 2], [1 / 2, 1 / 2]]"
  "topic_word_prob example_uniform = [[1 / 4, 1 / 4, 1 / 4, 1 / 4], [1 / 4, 1 / 4, 1 / 4, 1 / 4]]"
  by code_simp+

lemma example_counts_ok: "counts_ok example_uniform"
  by (simp add: counts_ok_iff example_uniform_fields has_shape_def less_Suc_eq
      eval_nat_numeral lessThan_Suc)

lemma example_uniform_tables: "uniform_tables 2 example_uniform"
  by (simp add: uniform_tables_def example_uniform_fields eval_nat_numeral)

lemma example_term_frequency:
  "map (term_frequency example_uniform) [0..<4] = [1 / 3, 1 / 6, 1 / 3, 1 / 6]"
  by (simp add: term_frequency_def example_uniform_fields eval_nat_numeral lessThan_Suc upt_rec)

theorem uniform_start_settles_on_term_frequencies_witness:
  "counts_ok example_uniform \<and> uniform_tables 2 example_uniform \<and>
   likelihoods example_uniform = [] \<and>
   em_iteration 2 example_uniform =
     Inr (unigram_state 2 example_uniform [unigram_likelihood example_uniform]) \<and>
   topic_word_prob (unigram_state 2 example_uniform [unigram_likelihood example_uniform]) =
     [[1 / 3, 1 / 6, 1 / 3, 1 / 6], [1 / 3, 1 / 6, 1 / 3, 1 / 6]] \<and>
   em_loop 2 (1 / 1000) [0..<50] example_uniform =
     Inr (unigram_state 2 example_uniform
            [unigram_likelihood example_uniform, unigram_likelihood example_uniform]) \<and>
   em_loop 2 0 [0..<3] example_uniform =
     Inr (unigram_state 2 example_uniform
            [unigram_likelihood example_uniform, unigram_likelihood example_uniform,
             unigram_likelihood example_uniform])"
proof -
  have K: "(0::nat) < 2" by simp
  note t = uniform_start_settles_on_term_frequencies[OF example_counts_ok K
      example_uniform_tables]
  have a: "em_iteration 2 example_uniform =
     Inr (unigram_state 2 example_uniform [unigram_likelihood example_uniform])"
    using t[THEN conjunct2, THEN conjunct2, THEN conjunct1]
    by (simp add: example_uniform_fields(4))
  have b: "em_loop 2 (1 / 1000) [0..<50] example_uniform =
     Inr (unigram_state 2 example_uniform
            [unigram_likelihood example_uniform, unigram_likelihood example_uniform])"
    using t[of 50 "1 / 1000"] example_uniform_fields(4) by simp
  have c: "em_loop 2 0 [0..<3] example_uniform =
     Inr (unigram_state 2 example_uniform (replicate 3 (unigram_likelihood example_uniform)))"
    using t[of 3 0] example_uniform_fields(4) by simp
  have d: "topic_word_prob (unigram_state 2 example_uniform [unigram_likelihood example_uniform]) =
     [[1 / 3, 1 / 6, 1 / 3, 1 / 6], [1 / 3, 1 / 6, 1 / 3, 1 / 6]]"
    using example_term_frequency
    by (simp add: unigram_state_fields example_uniform_fields eval_nat_numeral)
  from a b c d example_counts_ok example_uniform_tables example_uniform_fields(4) show ?thesis
    by (simp add: eval_nat_numeral)
qed

text \<open>
  The claim as the specification words it fails on the program. On the two-document
  corpus the uniform start is what \<open>initialize_uniformly\<close> produces, the E-step
  gives the posterior one half everywhere, and the M-step returns a
  \<open>topic_word_prob\<close> that is not the uniform one. And with \<open>epsilon = 0\<close> the loop
  does not stop at the second iteration although the trace is constant: a budget of
  three iterations is used up.
\<close>

lemma example_initialize_uniformly:
  "initialize_uniformly 2
     ((build_term_doc_matrix example_corpus)\<lparr>topic_prob := np_zeros3 2 2 4\<rparr>) =
   Inr example_uniform"
  by code_simp

theorem uniform_start_not_reproduced_counterexample:
  "initialize_uniformly 2
     ((build_term_doc_matrix example_corpus)\<lparr>topic_prob := np_zeros3 2 2 4\<rparr>) =
     Inr example_uniform \<and>
   topic_word_prob example_uniform =
     [[1 / 4, 1 / 4, 1 / 4, 1 / 4], [1 / 4, 1 / 4, 1 / 4, 1 / 4]] \<and>
   expectation_step example_uniform = Inr example_posterior \<and>
   maximization_step 2 example_posterior =
     Inr (example_posterior\<lparr>
       topic_word_prob := [[1 / 3, 1 / 6, 1 / 3, 1 / 6], [1 / 3, 1 / 6, 1 / 3, 1 / 6]],
       document_topic_prob := [[1 / 2, 1 / 2], [1 / 2, 1 / 2]]\<rparr>) \<and>
   [[1 / 3, 1 / 6, 1 / 3, 1 / 6], [1 / 3, 1 / 6, 1 / 3, 1 / 6]] \<noteq>
     topic_word_prob example_uniform \<and>
   em_loop 2 0 [0..<3] example_uniform =
     Inr (unigram_state 2 example_uniform (replicate 3 (unigram_likelihood example_uniform))) \<and>
   length (likelihoods
     (unigram_state 2 example_uniform (replicate 3 (unigram_likelihood example_uniform)))) = 3"
proof -
  have "em_loop 2 0 [0..<3] example_uniform =
     Inr (unigram_state 2 example_uniform (replicate 3 (unigram_likelihood example_uniform)))"
    using uniform_loop_nonpositive_epsilon[OF example_counts_ok _ example_uniform_tables,
        of 3 0]
    by (simp add: example_uniform_fields(4))
  with example_initialize_uniformly example_expectation_step example_maximization_step
  show ?thesis
    by (simp add: example_uniform_fields unigram_state_fields)
qed

end
